theory Spec2Isabelle
  imports Main
begin

section \<open>Python strings\<close>

text \<open>
  A Python \<open>str\<close> is modelled as a \<open>string\<close> whose characters are the code points
  below 256, one \<open>char\<close> per code point, so that \<open>length\<close> is Python's \<open>len\<close>.
  The functions below are the \<open>str\<close> methods that \<open>nodes.py\<close> calls.
\<close>

fun startswith :: "string \<Rightarrow> string \<Rightarrow> bool" where
  "startswith s [] = True"
| "startswith [] (p # ps) = False"
| "startswith (c # cs) (p # ps) = (c = p \<and> startswith cs ps)"

text \<open>
  \<open>s.replace(old, new)\<close> for a non-empty \<open>old\<close>: the occurrences are found from the
  left and do not overlap. The source only calls it with one-character patterns.
\<close>

function py_replace :: "string \<Rightarrow> string \<Rightarrow> string \<Rightarrow> string" where
  "py_replace [] old new = []"
| "py_replace (c # cs) old new =
     (if old \<noteq> [] \<and> startswith (c # cs) old
      then new @ py_replace (drop (length old) (c # cs)) old new
      else c # py_replace cs old new)"
  by pat_completeness auto
termination
  by (relation "measure (\<lambda>(s, old, new). length s)") auto

text \<open>
  \<open>sub in s\<close>, the substring test.
\<close>

fun py_in :: "string \<Rightarrow> string \<Rightarrow> bool" where
  "py_in sub [] = (sub = [])"
| "py_in sub (c # cs) = (startswith (c # cs) sub \<or> py_in sub cs)"

text \<open>
  \<open>s.strip()\<close> removes the characters for which \<open>str.isspace\<close> holds from both ends.
  Below 256 these are the code points 9 to 13, 28 to 32, 133 and 160.
\<close>

definition isspace :: "char \<Rightarrow> bool" where
  "isspace c =
     (let n = (of_char c :: nat)
      in (9 \<le> n \<and> n \<le> 13) \<or> (28 \<le> n \<and> n \<le> 32) \<or> n = 133 \<or> n = 160)"

definition py_strip :: "string \<Rightarrow> string" where
  "py_strip s = rev (dropWhile isspace (rev (dropWhile isspace s)))"

text \<open>
  \<open>s.split(sep)\<close> for a non-empty \<open>sep\<close>: \<open>cur\<close> holds the field being read,
  reversed. The result is never empty. \<open>s.split(sep, 1)\<close> stops at the first separator.
\<close>

function py_split_from :: "string \<Rightarrow> string \<Rightarrow> string \<Rightarrow> string list" where
  "py_split_from cur [] sep = [rev cur]"
| "py_split_from cur (c # cs) sep =
     (if sep \<noteq> [] \<and> startswith (c # cs) sep
      then rev cur # py_split_from [] (drop (length sep) (c # cs)) sep
      else py_split_from (c # cur) cs sep)"
  by pat_completeness auto
termination
  by (relation "measure (\<lambda>(cur, s, sep). length s)") auto

definition py_split :: "string \<Rightarrow> string \<Rightarrow> string list" where
  "py_split s sep = py_split_from [] s sep"

fun py_split1_from :: "string \<Rightarrow> string \<Rightarrow> string \<Rightarrow> string list" where
  "py_split1_from cur [] sep = [rev cur]"
| "py_split1_from cur (c # cs) sep =
     (if sep \<noteq> [] \<and> startswith (c # cs) sep
      then [rev cur, drop (length sep) (c # cs)]
      else py_split1_from (c # cur) cs sep)"

definition py_split1 :: "string \<Rightarrow> string \<Rightarrow> string list" where
  "py_split1 s sep = py_split1_from [] s sep"

text \<open>\<open>sep.join(xs)\<close>.\<close>

fun py_join :: "string \<Rightarrow> string list \<Rightarrow> string" where
  "py_join sep [] = []"
| "py_join sep [x] = x"
| "py_join sep (x # y # ys) = x @ sep @ py_join sep (y # ys)"

text \<open>\<open>xs[i]\<close> for \<open>i \<ge> 0\<close>: \<open>None\<close> is Python's \<open>IndexError\<close>.\<close>

definition py_index :: "'a list \<Rightarrow> nat \<Rightarrow> 'a option" where
  "py_index xs i = (if i < length xs then Some (xs ! i) else None)"

text \<open>
  \<open>int(s)\<close> for a string \<open>s\<close>: \<open>None\<close> is the \<open>ValueError\<close>. White space at both
  ends is skipped (for \<open>int\<close> the code points 9 to 13, 32, 133 and 160), then comes an
  optional sign and decimal digits, where single underscores may stand between digits.
  Leading zeros are allowed. Below 256 the only decimal digits are \<open>0\<close> to \<open>9\<close>.
  The interpreter's optional limit on the number of digits is not modelled.
\<close>

definition int_space :: "char \<Rightarrow> bool" where
  "int_space c =
     (let n = (of_char c :: nat)
      in (9 \<le> n \<and> n \<le> 13) \<or> n = 32 \<or> n = 133 \<or> n = 160)"

definition is_digit :: "char \<Rightarrow> bool" where
  "is_digit c = (let n = (of_char c :: nat) in 48 \<le> n \<and> n \<le> 57)"

definition digit_val :: "char \<Rightarrow> nat" where
  "digit_val c = of_char c - 48"

fun int_body :: "nat \<Rightarrow> string \<Rightarrow> nat option" where
  "int_body acc [] = Some acc"
| "int_body acc (c # cs) =
     (if is_digit c then int_body (10 * acc + digit_val c) cs
      else if c = CHR ''_'' then
        (case cs of
           [] \<Rightarrow> None
         | d # ds \<Rightarrow> if is_digit d then int_body (10 * acc + digit_val d) ds else None)
      else None)"

definition int_unsigned :: "string \<Rightarrow> nat option" where
  "int_unsigned s =
     (case s of
        [] \<Rightarrow> None
      | c # cs \<Rightarrow> if is_digit c then int_body (digit_val c) cs else None)"

definition py_int :: "string \<Rightarrow> int option" where
  "py_int s =
     (let t = rev (dropWhile int_space (rev (dropWhile int_space s)))
      in case t of
           [] \<Rightarrow> None
         | c # cs \<Rightarrow>
             if c = CHR ''+'' then map_option int (int_unsigned cs)
             else if c = CHR ''-'' then map_option (\<lambda>n. - int n) (int_unsigned cs)
             else map_option int (int_unsigned t))"

text \<open>
  A decimal numeral without sign and underscores, and the number it denotes.
\<close>

definition all_digits :: "string \<Rightarrow> bool" where
  "all_digits s = (s \<noteq> [] \<and> list_all is_digit s)"

definition decimal :: "string \<Rightarrow> nat" where
  "decimal s = foldl (\<lambda>a c. 10 * a + digit_val c) 0 s"

text \<open>\<open>str(n)\<close> for \<open>n \<ge> 0\<close>, and the format \<open>{n:02d}\<close>.\<close>

definition digit_char :: "nat \<Rightarrow> char" where
  "digit_char d = char_of (48 + d)"

function str_nat :: "nat \<Rightarrow> string" where
  "str_nat n = (if n < 10 then [digit_char n] else str_nat (n div 10) @ [digit_char (n mod 10)])"
  by pat_completeness auto
termination
  by (relation "measure id") auto

declare str_nat.simps [simp del]

definition fmt_02d :: "nat \<Rightarrow> string" where
  "fmt_02d n = (if n < 10 then CHR ''0'' # str_nat n else str_nat n)"

section \<open>Parsed oracle output\<close>

text \<open>
  The values \<open>yaml.safe_load\<close> returns: \<open>None\<close>, \<open>bool\<close>, \<open>int\<close>, \<open>float\<close>,
  \<open>str\<close>, \<open>list\<close> and \<open>dict\<close>; \<open>YOther\<close> stands for the remaining ones (dates,
  binary data, sets). The stages never look inside a float or one of these, so they carry
  no payload. \<open>YMap\<close> holds the items of the dict, and \<open>dict_get\<close> looks a string key up.
\<close>

datatype yaml =
    YNull
  | YBool bool
  | YInt int
  | YFloat
  | YStr string
  | YList "yaml list"
  | YMap "(yaml \<times> yaml) list"
  | YOther

definition dict_get :: "(yaml \<times> yaml) list \<Rightarrow> string \<Rightarrow> yaml option" where
  "dict_get d k = map_of d (YStr k)"

text \<open>
  What \<open>yaml.safe_load\<close> does besides returning a value: it raises a
  \<open>yaml.YAMLError\<close>, or an exception of another class (a \<open>ValueError\<close> of the
  date constructor on \<open>2001-02-30\<close>, for one). Each carries its text.
\<close>

datatype load_error = YAMLError string | OtherException string

text \<open>
  Every failure of a stage is a Python \<open>ValueError\<close>; the constructors name the
  \<open>raise\<close> statements. \<open>YamlParse\<close> carries the message of the extractor's error;
  the other messages interpolate the \<open>repr\<close> of the offending item and are left out.
  \<open>TypeError\<close> is what a stage raises on a response that is not a string (a
  \<open>TypeError\<close> or an \<open>AttributeError\<close>). \<open>Propagated\<close> is an exception that no
  handler of the stage catches and that leaves the stage as it is, with its text.
\<close>

datatype error =
    YamlParse string
  | NotAList
  | MissingKeys
  | NameNotString
  | DescriptionNotString
  | FileIndicesNotList
  | BadIndexEntry
  | NotADictOrMissingKeys
  | SummaryNotString
  | RelationshipsNotList
  | RelMissingKeys
  | LabelNotString
  | BadRelIndices
  | BadOrderEntry
  | OrderLengthMismatch
  | TypeError
  | Propagated string

section \<open>Response Extractor\<close>

text \<open>
  \<open>parse_yaml_from_llm_response(response)\<close>. The parser \<open>yaml.safe_load\<close> is a
  library function and a parameter here. The handler of the source is
  \<open>except yaml.YAMLError\<close>: an exception of another class passes it. The three blocks of the source set \<open>yaml_str\<close> in turn; the parser runs
  once, on the final \<open>yaml_str\<close>.
\<close>

definition strategy1_block :: "string \<Rightarrow> string option" where
  "strategy1_block response =
     (if py_in ''```yaml'' response then
        (case py_index (py_split (py_strip response) ''```yaml'') 1 of
           None \<Rightarrow> None
         | Some p \<Rightarrow>
             (case py_index (py_split p ''```'') 0 of
                None \<Rightarrow> None
              | Some q \<Rightarrow> Some (py_strip q)))
      else None)"

definition strategy2_block :: "string option \<Rightarrow> string \<Rightarrow> string option" where
  "strategy2_block yaml_str response =
     (if yaml_str = None \<and> py_in ''```'' response then
        (let parts = py_split (py_strip response) ''```''
         in if length parts \<ge> 3 then
              (let y = py_strip (parts ! 1)
               in if startswith y (''yaml'' @ [CHR 0x0A]) \<or> startswith y (''yml'' @ [CHR 0x0A])
                  then (case py_index (py_split1 y [CHR 0x0A]) 1 of
                          None \<Rightarrow> Some y
                        | Some rest \<Rightarrow> Some rest)
                  else Some y)
            else yaml_str)
      else yaml_str)"

definition strategy3_block :: "string option \<Rightarrow> string \<Rightarrow> string" where
  "strategy3_block yaml_str response =
     (case yaml_str of None \<Rightarrow> py_strip response | Some y \<Rightarrow> y)"

definition extraction_message :: "string \<Rightarrow> string \<Rightarrow> string" where
  "extraction_message e response =
     ''Failed to parse YAML from LLM response. YAML Error: '' @ e
       @ [CHR 0x0A, CHR 0x0A] @ ''Response content:'' @ [CHR 0x0A] @ take 500 response @ ''...''"

definition parse_yaml_from_llm_response ::
  "(string \<Rightarrow> load_error + yaml) \<Rightarrow> string \<Rightarrow> error + yaml" where
  "parse_yaml_from_llm_response safe_load response =
     (let yaml_str = strategy1_block response;
          yaml_str = strategy2_block yaml_str response;
          yaml_str = strategy3_block yaml_str response
      in case safe_load yaml_str of
           Inl (YAMLError e) \<Rightarrow> Inl (YamlParse (extraction_message e response))
         | Inl (OtherException x) \<Rightarrow> Inl (Propagated x)
         | Inr v \<Rightarrow> Inr v)"

text \<open>
  The same selection told without lists and indices: \<open>text_after sep s\<close> is what
  follows the first \<open>sep\<close> in \<open>s\<close>, and \<open>text_before sep s\<close> is what precedes it
  (all of \<open>s\<close> when there is none). The candidate is the text that follows the first
  \<open>```yaml\<close> up to the next fence; or, without such a tag, the text between the first
  two fences without its language line; or else the whole response; trimmed in each
  case.
\<close>

fun text_after :: "string \<Rightarrow> string \<Rightarrow> string" where
  "text_after sep [] = []"
| "text_after sep (c # cs) =
     (if startswith (c # cs) sep then drop (length sep) (c # cs) else text_after sep cs)"

fun text_before :: "string \<Rightarrow> string \<Rightarrow> string" where
  "text_before sep [] = []"
| "text_before sep (c # cs) =
     (if startswith (c # cs) sep then [] else c # text_before sep cs)"





section \<open>Index entries\<close>

text \<open>
  The Abstraction and the Ordering Stage read an index entry with the same three branches:
  \<^verbatim>\<open>
  if isinstance(idx_entry, int):
      idx = idx_entry
  elif isinstance(idx_entry, str) and "#" in idx_entry:
      idx = int(idx_entry.split("#")[0].strip())
  else:
      idx = int(str(idx_entry).strip())
  \<close>
  \<open>None\<close> is the \<open>ValueError\<close> of \<open>int\<close>. A \<open>bool\<close> is an \<open>int\<close> in Python, so
  \<open>True\<close> and \<open>False\<close> take the first branch, as the numbers 1 and 0 they are equal
  to. For every other value that is not a string, \<open>str\<close> of it is no integer literal
  (\<open>None\<close>, a float's text with its point, exponent, \<open>inf\<close> or \<open>nan\<close>, a bracketed
  list or dict, a date), so the last branch raises.
\<close>

definition parse_index_entry :: "yaml \<Rightarrow> int option" where
  "parse_index_entry entry =
     (case entry of
        YInt n \<Rightarrow> Some n
      | YBool b \<Rightarrow> Some (if b then 1 else 0)
      | YStr s \<Rightarrow>
          if py_in ''#'' s then
            (case py_index (py_split s ''#'') 0 of
               None \<Rightarrow> None
             | Some p \<Rightarrow> py_int (py_strip p))
          else py_int (py_strip s)
      | _ \<Rightarrow> None)"

section \<open>Abstraction Stage\<close>

text \<open>
  The stored abstraction \<open>{"name": ..., "description": ..., "files": ...}\<close>.
\<close>

record abstraction =
  abs_name :: string
  abs_description :: string
  abs_files :: "int list"

text \<open>
  The loop over \<open>item["file_indices"]\<close> of \<open>IdentifyAbstractions.exec\<close>;
  \<open>validated_indices\<close> is the list the source appends to. A range failure is raised
  inside the \<open>try\<close> and raised again by its handler.
\<close>

fun validate_file_indices :: "nat \<Rightarrow> int list \<Rightarrow> yaml list \<Rightarrow> error + int list" where
  "validate_file_indices file_count validated_indices [] = Inr validated_indices"
| "validate_file_indices file_count validated_indices (idx_entry # rest) =
     (case parse_index_entry idx_entry of
        None \<Rightarrow> Inl BadIndexEntry
      | Some idx \<Rightarrow>
          if \<not> (0 \<le> idx \<and> idx < int file_count) then Inl BadIndexEntry
          else validate_file_indices file_count (validated_indices @ [idx]) rest)"

text \<open>
  One pass of the loop over the parsed items; \<open>sorted(list(set(validated_indices)))\<close>
  is \<open>sort (remdups validated_indices)\<close>.
\<close>

definition validate_abstraction_item :: "nat \<Rightarrow> yaml \<Rightarrow> error + abstraction" where
  "validate_abstraction_item file_count item =
     (case item of
        YMap d \<Rightarrow>
          if \<not> (\<forall>k \<in> set [''name'', ''description'', ''file_indices'']. dict_get d k \<noteq> None)
          then Inl MissingKeys
          else
            (case dict_get d ''name'' of
               Some (YStr nm) \<Rightarrow>
                 (case dict_get d ''description'' of
                    Some (YStr ds) \<Rightarrow>
                      (case dict_get d ''file_indices'' of
                         Some (YList entries) \<Rightarrow>
                           (case validate_file_indices file_count [] entries of
                              Inl e \<Rightarrow> Inl e
                            | Inr validated_indices \<Rightarrow>
                                Inr \<lparr>abs_name = nm, abs_description = ds,
                                     abs_files = sort (remdups validated_indices)\<rparr>)
                       | _ \<Rightarrow> Inl FileIndicesNotList)
                  | _ \<Rightarrow> Inl DescriptionNotString)
             | _ \<Rightarrow> Inl NameNotString)
      | _ \<Rightarrow> Inl MissingKeys)"

fun validate_abstractions ::
  "nat \<Rightarrow> abstraction list \<Rightarrow> yaml list \<Rightarrow> error + abstraction list" where
  "validate_abstractions file_count validated_abstractions [] = Inr validated_abstractions"
| "validate_abstractions file_count validated_abstractions (item # rest) =
     (case validate_abstraction_item file_count item of
        Inl e \<Rightarrow> Inl e
      | Inr a \<Rightarrow> validate_abstractions file_count (validated_abstractions @ [a]) rest)"

text \<open>
  What it means that the stage stored the abstraction \<open>a\<close> for the parsed item: the
  item is a mapping with the three keys, name and description are the item's strings,
  every index entry resolves to an index below the number of files, and the stored
  files are all the resolved indices, without duplicates and in ascending order.
\<close>

definition item_accepted :: "nat \<Rightarrow> yaml \<Rightarrow> abstraction \<Rightarrow> bool" where
  "item_accepted file_count item a =
     (\<exists>d entries. item = YMap d
        \<and> dict_get d ''name'' = Some (YStr (abs_name a))
        \<and> dict_get d ''description'' = Some (YStr (abs_description a))
        \<and> dict_get d ''file_indices'' = Some (YList entries)
        \<and> (\<forall>e \<in> set entries. \<exists>i. parse_index_entry e = Some i \<and> 0 \<le> i \<and> i < int file_count)
        \<and> abs_files a = sort (remdups (map (the \<circ> parse_index_entry) entries)))"

text \<open>
  \<open>IdentifyAbstractions.exec\<close> from the oracle's response on: \<open>response\<close> is what
  \<open>call_llm\<close> returned, \<open>file_count\<close> is \<open>len(files_data)\<close>.
\<close>

definition IdentifyAbstractions_exec ::
  "(string \<Rightarrow> load_error + yaml) \<Rightarrow> string \<Rightarrow> nat \<Rightarrow> error + abstraction list" where
  "IdentifyAbstractions_exec safe_load response file_count =
     (case parse_yaml_from_llm_response safe_load response of
        Inl e \<Rightarrow> Inl e
      | Inr (YList abstractions) \<Rightarrow> validate_abstractions file_count [] abstractions
      | Inr _ \<Rightarrow> Inl NotAList)"

section \<open>Relationship Stage\<close>

text \<open>
  An endpoint is read by \<open>int(str(rel["from_abstraction"]).split("#")[0].strip())\<close>.
  For an \<open>int\<close> this is the number itself. Here a \<open>bool\<close> prints as \<open>True\<close> or
  \<open>False\<close> and is rejected, as is every other value that is not a string.
\<close>

definition parse_endpoint :: "yaml \<Rightarrow> int option" where
  "parse_endpoint v =
     (case v of
        YInt n \<Rightarrow> Some n
      | YStr s \<Rightarrow>
          (case py_index (py_split s ''#'') 0 of
             None \<Rightarrow> None
           | Some p \<Rightarrow> py_int (py_strip p))
      | _ \<Rightarrow> None)"

record relationship =
  rel_from :: int
  rel_to :: int
  rel_label :: string

record relationships_result =
  summary :: string
  details :: "relationship list"

definition validate_relationship :: "nat \<Rightarrow> yaml \<Rightarrow> error + relationship" where
  "validate_relationship num_abstractions rel =
     (case rel of
        YMap d \<Rightarrow>
          if \<not> (\<forall>k \<in> set [''from_abstraction'', ''to_abstraction'', ''label'']. dict_get d k \<noteq> None)
          then Inl RelMissingKeys
          else
            (case dict_get d ''label'' of
               Some (YStr lbl) \<Rightarrow>
                 (case Option.bind (dict_get d ''from_abstraction'') parse_endpoint of
                    None \<Rightarrow> Inl BadRelIndices
                  | Some from_idx \<Rightarrow>
                      (case Option.bind (dict_get d ''to_abstraction'') parse_endpoint of
                         None \<Rightarrow> Inl BadRelIndices
                       | Some to_idx \<Rightarrow>
                           if \<not> (0 \<le> from_idx \<and> from_idx < int num_abstractions
                                 \<and> 0 \<le> to_idx \<and> to_idx < int num_abstractions)
                           then Inl BadRelIndices
                           else Inr \<lparr>rel_from = from_idx, rel_to = to_idx, rel_label = lbl\<rparr>))
             | _ \<Rightarrow> Inl LabelNotString)
      | _ \<Rightarrow> Inl RelMissingKeys)"

fun validate_relationships ::
  "nat \<Rightarrow> relationship list \<Rightarrow> yaml list \<Rightarrow> error + relationship list" where
  "validate_relationships num_abstractions validated_relationships [] =
     Inr validated_relationships"
| "validate_relationships num_abstractions validated_relationships (rel # rest) =
     (case validate_relationship num_abstractions rel of
        Inl e \<Rightarrow> Inl e
      | Inr r \<Rightarrow>
          validate_relationships num_abstractions (validated_relationships @ [r]) rest)"

text \<open>
  What it means that the stage stored the edge \<open>r\<close> for the parsed entry: the entry is
  a mapping with the three keys, the label is the entry's string, and the endpoints are
  what the two endpoint fields resolve to, both below the number of abstractions.
\<close>

definition rel_accepted :: "nat \<Rightarrow> yaml \<Rightarrow> relationship \<Rightarrow> bool" where
  "rel_accepted num_abstractions rel r =
     (\<exists>d f t. rel = YMap d
        \<and> dict_get d ''label'' = Some (YStr (rel_label r))
        \<and> dict_get d ''from_abstraction'' = Some f \<and> parse_endpoint f = Some (rel_from r)
        \<and> dict_get d ''to_abstraction'' = Some t \<and> parse_endpoint t = Some (rel_to r)
        \<and> 0 \<le> rel_from r \<and> rel_from r < int num_abstractions
        \<and> 0 \<le> rel_to r \<and> rel_to r < int num_abstractions)"

text \<open>\<open>AnalyzeRelationships.exec\<close> from the oracle's response on.\<close>

definition AnalyzeRelationships_exec ::
  "(string \<Rightarrow> load_error + yaml) \<Rightarrow> string \<Rightarrow> nat \<Rightarrow> error + relationships_result" where
  "AnalyzeRelationships_exec safe_load response num_abstractions =
     (case parse_yaml_from_llm_response safe_load response of
        Inl e \<Rightarrow> Inl e
      | Inr (YMap relationships_data) \<Rightarrow>
          if \<not> (\<forall>k \<in> set [''summary'', ''relationships'']. dict_get relationships_data k \<noteq> None)
          then Inl NotADictOrMissingKeys
          else
            (case dict_get relationships_data ''summary'' of
               Some (YStr sm) \<Rightarrow>
                 (case dict_get relationships_data ''relationships'' of
                    Some (YList rels) \<Rightarrow>
                      (case validate_relationships num_abstractions [] rels of
                         Inl e \<Rightarrow> Inl e
                       | Inr validated_relationships \<Rightarrow>
                           Inr \<lparr>summary = sm, details = validated_relationships\<rparr>)
                  | _ \<Rightarrow> Inl RelationshipsNotList)
             | _ \<Rightarrow> Inl SummaryNotString)
      | Inr _ \<Rightarrow> Inl NotADictOrMissingKeys)"

section \<open>Ordering Stage\<close>

text \<open>
  The loop of \<open>OrderChapters.exec\<close> over \<open>ordered_indices_raw\<close>, with the list
  \<open>ordered_indices\<close> and the set \<open>seen_indices\<close> of the source, and the length
  check behind it.
\<close>

fun order_loop :: "nat \<Rightarrow> int list \<Rightarrow> int set \<Rightarrow> yaml list \<Rightarrow> error + int list" where
  "order_loop num_abstractions ordered_indices seen_indices [] = Inr ordered_indices"
| "order_loop num_abstractions ordered_indices seen_indices (entry # rest) =
     (case parse_index_entry entry of
        None \<Rightarrow> Inl BadOrderEntry
      | Some idx \<Rightarrow>
          if \<not> (0 \<le> idx \<and> idx < int num_abstractions) then Inl BadOrderEntry
          else if idx \<in> seen_indices then Inl BadOrderEntry
          else order_loop num_abstractions (ordered_indices @ [idx])
                 (insert idx seen_indices) rest)"

definition OrderChapters_exec ::
  "(string \<Rightarrow> load_error + yaml) \<Rightarrow> string \<Rightarrow> nat \<Rightarrow> error + int list" where
  "OrderChapters_exec safe_load response num_abstractions =
     (case parse_yaml_from_llm_response safe_load response of
        Inl e \<Rightarrow> Inl e
      | Inr (YList ordered_indices_raw) \<Rightarrow>
          (case order_loop num_abstractions [] {} ordered_indices_raw of
             Inl e \<Rightarrow> Inl e
           | Inr ordered_indices \<Rightarrow>
               if length ordered_indices \<noteq> num_abstractions then Inl OrderLengthMismatch
               else Inr ordered_indices)
      | Inr _ \<Rightarrow> Inl NotAList)"

section \<open>Narrative Assembly Stage: the heading of a document\<close>

text \<open>
  \<open>WriteChapters.exec\<close> from the oracle's response \<open>chapter_content\<close> on:
  \<^verbatim>\<open>
  actual_heading = f"# {abstraction_name}"
  if not chapter_content.strip().startswith(f"# {abstraction_name}"):
      lines = chapter_content.strip().split("\n")
      if lines and lines[0].strip().startswith("#"):
          lines[0] = actual_heading
          chapter_content = "\n".join(lines)
      else:
          chapter_content = f"{actual_heading}\n\n{chapter_content}"
  return chapter_content
  \<close>
\<close>

definition WriteChapters_exec :: "string \<Rightarrow> string \<Rightarrow> string" where
  "WriteChapters_exec abstraction_name chapter_content =
     (let actual_heading = ''# '' @ abstraction_name
      in if \<not> startswith (py_strip chapter_content) (''# '' @ abstraction_name) then
           (let lines = py_split (py_strip chapter_content) [CHR 0x0A]
            in case lines of
                 first # others \<Rightarrow>
                   if startswith (py_strip first) ''#''
                   then py_join [CHR 0x0A] (actual_heading # others)
                   else actual_heading @ [CHR 0x0A, CHR 0x0A] @ chapter_content
               | [] \<Rightarrow> actual_heading @ [CHR 0x0A, CHR 0x0A] @ chapter_content)
         else chapter_content)"

section \<open>Combination Stage: the diagram's edge labels\<close>

text \<open>
  \<open>CombineTutorial.prep\<close>, the body of the loop over \<open>relationships_data["details"]\<close>:
  \<^verbatim>\<open>
  edge_label = rel["label"].replace('"', "").replace("\n", " ")
  max_label_len = 30
  if len(edge_label) > max_label_len:
      edge_label = edge_label[: max_label_len - 3] + "..."
  \<close>
\<close>

definition max_label_len :: nat where
  "max_label_len = 30"

definition sanitize_label :: "string \<Rightarrow> string" where
  "sanitize_label label = py_replace (py_replace label [CHR 0x22] []) [CHR 0x0A] '' ''"

definition edge_label :: "string \<Rightarrow> string" where
  "edge_label label =
     (let l = sanitize_label label
      in if length l > max_label_len then take (max_label_len - 3) l @ ''...'' else l)"

text \<open>
  The edge statement of the diagram,
  \<open>f'    {from_node_id} -- "{edge_label}" --> {to_node_id}'\<close> with the node
  identifiers \<open>f"A{rel['from']}"\<close> and \<open>f"A{rel['to']}"\<close>.
\<close>

definition str_int :: "int \<Rightarrow> string" where
  "str_int i = (if i < 0 then CHR ''-'' # str_nat (nat (- i)) else str_nat (nat i))"

definition mermaid_edge_line :: "relationship \<Rightarrow> string" where
  "mermaid_edge_line rel =
     ''    A'' @ str_int (rel_from rel) @ '' -- '' @ [CHR 0x22] @ edge_label (rel_label rel)
       @ [CHR 0x22] @ '' --> A'' @ str_int (rel_to rel)"

section \<open>Combination Stage: the navigation entries\<close>

text \<open>
  \<open>str.isalnum\<close> and \<open>str.lower\<close> on the code points below 256.
\<close>

definition isalnum :: "char \<Rightarrow> bool" where
  "isalnum c =
     (let n = (of_char c :: nat)
      in (48 \<le> n \<and> n \<le> 57) \<or> (65 \<le> n \<and> n \<le> 90) \<or> (97 \<le> n \<and> n \<le> 122)
         \<or> n \<in> {170, 178, 179, 181, 185, 186, 188, 189, 190}
         \<or> (192 \<le> n \<and> n \<le> 214) \<or> (216 \<le> n \<and> n \<le> 246) \<or> (248 \<le> n \<and> n \<le> 255))"

definition lower_char :: "char \<Rightarrow> char" where
  "lower_char c =
     (let n = (of_char c :: nat)
      in if (65 \<le> n \<and> n \<le> 90) \<or> (192 \<le> n \<and> n \<le> 214) \<or> (216 \<le> n \<and> n \<le> 222)
         then char_of (n + 32) else c)"

text \<open>
  \<open>"".join(c if c.isalnum() else "_" for c in abstraction_name).lower()\<close>
\<close>

definition safe_name :: "string \<Rightarrow> string" where
  "safe_name abstraction_name =
     map lower_char (map (\<lambda>c. if isalnum c then c else CHR ''_'') abstraction_name)"

definition chapter_filename :: "nat \<Rightarrow> string \<Rightarrow> string" where
  "chapter_filename i abstraction_name =
     fmt_02d (i + 1) @ ''_'' @ safe_name abstraction_name @ ''.md''"

record chapter_link =
  link_number :: nat
  link_title :: string
  link_filename :: string
  link_description :: string

record chapter_file =
  file_filename :: string
  file_content :: string

text \<open>
  The loop of \<open>CombineTutorial.prep\<close> over \<open>enumerate(chapter_order)\<close>: an entry whose
  index is out of range, or that has no content, is skipped with a warning.
\<close>

fun chapter_loop ::
  "abstraction list \<Rightarrow> string list \<Rightarrow> chapter_link list \<times> chapter_file list \<Rightarrow>
   (nat \<times> int) list \<Rightarrow> chapter_link list \<times> chapter_file list" where
  "chapter_loop abstractions chapters_content acc [] = acc"
| "chapter_loop abstractions chapters_content (chapter_links, chapter_files)
     ((i, abstraction_index) # rest) =
     (if 0 \<le> abstraction_index \<and> abstraction_index < int (length abstractions)
         \<and> i < length chapters_content
      then
        (let abstraction_name = abs_name (abstractions ! nat abstraction_index);
             filename = chapter_filename i abstraction_name
         in chapter_loop abstractions chapters_content
              (chapter_links @
                 [\<lparr>link_number = i + 1, link_title = abstraction_name, link_filename = filename,
                   link_description = abs_description (abstractions ! nat abstraction_index)\<rparr>],
               chapter_files @
                 [\<lparr>file_filename = filename, file_content = chapters_content ! i\<rparr>])
              rest)
      else chapter_loop abstractions chapters_content (chapter_links, chapter_files) rest)"

definition overview_link :: "nat \<Rightarrow> chapter_link" where
  "overview_link bf_episode_number =
     \<lparr>link_number = bf_episode_number,
      link_title = ''Beginner-Friendly Overview'',
      link_filename = ''beginner_friendly_episode.md'',
      link_description =
        ''A high-level, simplified overview of the project for non-technical readers.''\<rparr>"

definition CombineTutorial_chapter_links ::
  "abstraction list \<Rightarrow> int list \<Rightarrow> string list \<Rightarrow> chapter_link list \<times> chapter_file list" where
  "CombineTutorial_chapter_links abstractions chapter_order chapters_content =
     (case chapter_loop abstractions chapters_content ([], []) (enumerate 0 chapter_order) of
        (chapter_links, chapter_files) \<Rightarrow>
          (chapter_links @ [overview_link (length chapter_links + 1)], chapter_files))"

text \<open>
  The chapters come from the Narrative Assembly Stage: \<open>WriteChapters.prep\<close> prepares
  one item per entry of the order whose index is in range, and the stage returns one
  document per item.
\<close>

definition WriteChapters_items :: "abstraction list \<Rightarrow> int list \<Rightarrow> (nat \<times> int) list" where
  "WriteChapters_items abstractions chapter_order =
     filter (\<lambda>(i, abstraction_index).
               0 \<le> abstraction_index \<and> abstraction_index < int (length abstractions))
       (enumerate 0 chapter_order)"

text \<open>
  A valid order, in the words of the specification: \<open>len(order) == |Abstractions|\<close> and
  \<open>set(order) == set(range(|Abstractions|))\<close>.
\<close>

definition valid_chapter_order :: "nat \<Rightarrow> int list \<Rightarrow> bool" where
  "valid_chapter_order num_abstractions order =
     (length order = num_abstractions \<and> set order = int ` {0..<num_abstractions})"

section \<open>The oracle wrapper\<close>

text \<open>
  \<open>call_llm(prompt, use_cache)\<close> reads and writes the file \<open>llm_cache.json\<close> and calls
  the service. The file is absent, or \<open>json.load\<close> fails on it, or it holds a JSON
  value; what \<open>call_llm\<close> itself writes is an object from prompts to responses, but any
  value may be in the file. Numbers are given as integers; the wrapper treats all
  numbers alike. The same type gives the Python value that \<open>call_llm\<close> returns: a
  \<open>str\<close>, \<open>None\<close>, or what the cache held for the prompt.
\<close>

datatype json =
    JNull
  | JBool bool
  | JNumber int
  | JString string
  | JArray "json list"
  | JObject "string \<rightharpoonup> json"

datatype cache_file = Missing | Unreadable | Holds json

datatype write_outcome = WriteOk | OpenFails | DumpFails

text \<open>
  A call ends at the cache, without a call of the service, or it calls the service.
\<close>

datatype llm_source = FromCache | FromApi

text \<open>
  What the service and the disk do in one call are parameters: \<open>Inl e\<close> is an exception
  of the service call whose text is \<open>e\<close>, \<open>Inr r\<close> is the returned
  \<open>message.content\<close>, which may be \<open>None\<close>; opening the file for writing may fail,
  which leaves it as it was, and \<open>json.dump\<close> may fail, which leaves it truncated.
\<close>

type_synonym api_result = "string + string option"

text \<open>
  The three operations of the source on the loaded value \<open>cache\<close>, which stand outside
  every \<open>try\<close>: \<open>prompt in cache\<close>, \<open>cache[prompt]\<close> and
  \<open>cache[prompt] = response_text\<close>. \<open>Inl\<close> is the exception they raise on a value
  that does not support them.
\<close>

definition cache_contains :: "json \<Rightarrow> string \<Rightarrow> string + bool" where
  "cache_contains cache prompt =
     (case cache of
        JObject m \<Rightarrow> Inr (m prompt \<noteq> None)
      | JArray xs \<Rightarrow> Inr (JString prompt \<in> set xs)
      | JString s \<Rightarrow> Inr (py_in prompt s)
      | _ \<Rightarrow> Inl ''TypeError: argument is not iterable'')"

definition cache_getitem :: "json \<Rightarrow> string \<Rightarrow> string + json" where
  "cache_getitem cache prompt =
     (case cache of
        JObject m \<Rightarrow> (case m prompt of Some v \<Rightarrow> Inr v | None \<Rightarrow> Inl ''KeyError'')
      | _ \<Rightarrow> Inl ''TypeError: indices must be integers'')"

definition cache_setitem :: "json \<Rightarrow> string \<Rightarrow> json \<Rightarrow> string + json" where
  "cache_setitem cache prompt v =
     (case cache of
        JObject m \<Rightarrow> Inr (JObject (m(prompt \<mapsto> v)))
      | _ \<Rightarrow> Inl ''TypeError: object does not support item assignment'')"

text \<open>
  \<open>json.load\<close> under its \<open>try\<close>: a failure leaves the empty dict. \<open>json.dump\<close>
  under its \<open>try\<close>: a failure is logged.
\<close>

definition json_load :: "cache_file \<Rightarrow> json" where
  "json_load cf = (case cf of Holds j \<Rightarrow> j | _ \<Rightarrow> JObject Map.empty)"

definition json_dump :: "write_outcome \<Rightarrow> json \<Rightarrow> cache_file \<Rightarrow> cache_file" where
  "json_dump wr cache cf =
     (case wr of WriteOk \<Rightarrow> Holds cache | OpenFails \<Rightarrow> cf | DumpFails \<Rightarrow> Unreadable)"

definition failure_sentinel :: "string \<Rightarrow> string" where
  "failure_sentinel e = ''[OpenAI call failed: '' @ e @ '']''"

text \<open>The service call under its \<open>try\<close>: \<open>response_text\<close>.\<close>

definition response_value :: "api_result \<Rightarrow> json" where
  "response_value api =
     (case api of
        Inl e \<Rightarrow> JString (failure_sentinel e)
      | Inr None \<Rightarrow> JNull
      | Inr (Some t) \<Rightarrow> JString t)"

text \<open>
  The result is what the call returns (\<open>Inr\<close>) or the exception it raises to its caller
  (\<open>Inl\<close>), where the call ended, and the cache file after the call.
\<close>

definition call_llm ::
  "api_result \<Rightarrow> write_outcome \<Rightarrow> string \<Rightarrow> bool \<Rightarrow> cache_file \<Rightarrow>
   (string + json) \<times> llm_source \<times> cache_file" where
  "call_llm api wr prompt use_cache cf =
     (let cache = (if use_cache \<and> cf \<noteq> Missing then json_load cf else JObject Map.empty)
      in case (if use_cache \<and> cf \<noteq> Missing then cache_contains cache prompt else Inr False) of
           Inl e \<Rightarrow> (Inl e, FromCache, cf)
         | Inr True \<Rightarrow> (cache_getitem cache prompt, FromCache, cf)
         | Inr False \<Rightarrow>
             (case response_value api of
                JString t \<Rightarrow>
                  if use_cache \<and> t \<noteq> [] \<and> \<not> startswith t ''['' then
                    (case cache_setitem cache prompt (JString t) of
                       Inl e \<Rightarrow> (Inl e, FromApi, cf)
                     | Inr cache' \<Rightarrow> (Inr (JString t), FromApi, json_dump wr cache' cf))
                  else (Inr (JString t), FromApi, cf)
              | response_text \<Rightarrow> (Inr response_text, FromApi, cf)))"

text \<open>
  A sequence of calls, each with its prompt, its flag and what the service and the disk
  do in it; the results are returned in order.
\<close>

fun call_llm_seq ::
  "(api_result \<times> write_outcome \<times> string \<times> bool) list \<Rightarrow> cache_file \<Rightarrow>
   ((string + json) \<times> llm_source) list \<times> cache_file" where
  "call_llm_seq [] cf = ([], cf)"
| "call_llm_seq ((api, wr, prompt, use_cache) # rest) cf =
     (case call_llm api wr prompt use_cache cf of
        (r, src, cf') \<Rightarrow>
          (case call_llm_seq rest cf' of (rs, cf'') \<Rightarrow> ((r, src) # rs, cf'')))"

text \<open>
  A cache without failure markers: no stored string is empty or starts with \<open>[\<close>.
  A cache file of the wrapper's own kind: absent, unreadable, or holding an object.
\<close>

definition marker_free :: "cache_file \<Rightarrow> bool" where
  "marker_free cf =
     (case cf of
        Holds (JObject m) \<Rightarrow> (\<forall>p t. m p = Some (JString t) \<longrightarrow> t \<noteq> [] \<and> \<not> startswith t ''['')
      | _ \<Rightarrow> True)"

definition cache_is_object :: "cache_file \<Rightarrow> bool" where
  "cache_is_object cf =
     (case cf of Holds (JObject m) \<Rightarrow> True | Holds _ \<Rightarrow> False | _ \<Rightarrow> True)"

section \<open>Retried stages\<close>



text \<open>
  The \<open>exec\<close> of a retried stage (\<open>IdentifyAbstractions\<close>, \<open>AnalyzeRelationships\<close>,
  \<open>OrderChapters\<close>, \<open>WriteChapters\<close> per item, \<open>WriteBeginnerFriendlyEpisode\<close>) calls
  the oracle by
  \<open>call_llm(prompt, use_cache=(use_cache and self.cur_retry == 0))\<close>
  and then works on the response, which \<open>validate\<close> stands for; an exception of
  \<open>call_llm\<close> leaves the stage as it is. The state is the cache file and the log of the
  calls: the flag passed and where the call ended. \<open>api\<close> and \<open>wr\<close> give what the
  service and the disk do in each attempt.
\<close>

record llm_world =
  cache :: cache_file
  calls :: "(bool \<times> llm_source) list"



definition IdentifyAbstractions_attempt ::
  "(string \<Rightarrow> load_error + yaml) \<Rightarrow> nat \<Rightarrow> json \<Rightarrow> error + abstraction list" where
  "IdentifyAbstractions_attempt safe_load file_count response =
     (case response of
        JString r \<Rightarrow> IdentifyAbstractions_exec safe_load r file_count
      | _ \<Rightarrow> Inl TypeError)"

section \<open>Combination Stage: publishing and writing the artifacts\<close>







text \<open>
  The result of \<open>CombineTutorial.prep\<close> that \<open>exec\<close> reads, and what \<open>exec\<close> does to
  the world, as one trace in the order of the events: the directory made, the publish
  calls made, the files written.
\<close>

record prep_res =
  output_path :: string
  index_content :: string
  chapter_files :: "chapter_file list"
  beginner_friendly_episode :: string
  publish_to_nostr :: bool
  repo_url :: string

















section \<open>Examples of oracle output\<close>

text \<open>
  The texts used in the examples of this theory, and what \<open>yaml.safe_load\<close> makes of
  them. \<open>safe_load_table\<close> is the parser on these texts only; a text that is not in the
  table is not needed and is given an error.
\<close>

definition nl :: string where
  "nl = [CHR 0x0A]"

definition dq :: string where
  "dq = [CHR 0x22]"

definition order_yaml :: string where
  "order_yaml =
     ''- 1 # MainProcessor'' @ nl @ ''- '' @ dq @ ''0 # Core'' @ dq @ nl @ ''- '' @ dq @ ''2'' @ dq"

definition order_response :: string where
  "order_response = ''```yaml'' @ nl @ order_yaml @ nl @ ''```'' @ nl"

definition abstractions_yaml :: string where
  "abstractions_yaml =
     ''- name: Parser'' @ nl @ ''  description: Reads the input.'' @ nl @ ''  file_indices:'' @ nl
     @ ''    - 2 # parse.py'' @ nl @ ''    - '' @ dq @ ''0 # main.py'' @ dq @ nl
     @ ''    - '' @ dq @ ''2'' @ dq"

definition abstractions_response :: string where
  "abstractions_response =
     ''Here is the list:'' @ nl @ ''```'' @ nl @ abstractions_yaml @ nl @ ''```''"

definition relationships_yaml :: string where
  "relationships_yaml =
     ''summary: A small parser.'' @ nl @ ''relationships:'' @ nl
     @ ''  - from_abstraction: 0 # Parser'' @ nl
     @ ''    to_abstraction: '' @ dq @ ''1 # Printer'' @ dq @ nl
     @ ''    label: Feeds'' @ nl @ ''notes: none''"

definition unclosed_response :: string where
  "unclosed_response = ''k: v ```yaml [''"

text \<open>
  A hundred stored abstractions of the same name, in their own order, with a hundred
  documents, and two stored abstractions, for the examples of the navigation list.
\<close>

definition hundred_abstractions :: "abstraction list" where
  "hundred_abstractions =
     replicate 100 \<lparr>abs_name = ''N'', abs_description = ''One of many.'', abs_files = []\<rparr>"

definition hundred_order :: "int list" where
  "hundred_order = map int [0..<100]"

definition hundred_chapters :: "string list" where
  "hundred_chapters = replicate 100 ''# N''"


definition two_abstractions :: "abstraction list" where
  "two_abstractions =
     [\<lparr>abs_name = ''Core Engine'', abs_description = ''Runs the stages.'', abs_files = [0, 1]\<rparr>,
      \<lparr>abs_name = ''Parser'', abs_description = ''Reads the input.'', abs_files = [2]\<rparr>]"

definition safe_load_table :: "string \<Rightarrow> load_error + yaml" where
  "safe_load_table s =
     (if s = order_yaml then Inr (YList [YInt 1, YStr ''0 # Core'', YStr ''2''])
      else if s = abstractions_yaml then
        Inr (YList [YMap [(YStr ''name'', YStr ''Parser''),
                          (YStr ''description'', YStr ''Reads the input.''),
                          (YStr ''file_indices'',
                             YList [YInt 2, YStr ''0 # main.py'', YStr ''2''])]])
      else if s = relationships_yaml then
        Inr (YMap [(YStr ''summary'', YStr ''A small parser.''),
                   (YStr ''relationships'',
                      YList [YMap [(YStr ''from_abstraction'', YInt 0),
                                   (YStr ''to_abstraction'', YStr ''1 # Printer''),
                                   (YStr ''label'', YStr ''Feeds'')]]),
                   (YStr ''notes'', YStr ''none'')])
      else if s = unclosed_response then Inr (YMap [(YStr ''k'', YStr ''v ```yaml ['')])
      else if s = ''['' then
        Inl (YAMLError ''while parsing a flow node: expected the node content'')
      else if s = ''2001-02-30'' then Inl (OtherException ''day is out of range for month'')
      else Inl (YAMLError ''not in the table''))"

section \<open>Properties of the edge labels\<close>

lemma py_replace_delete_char: "py_replace s [d] [] = filter (\<lambda>c. c \<noteq> d) s"
  by (induction s) auto

lemma py_replace_subst_char: "py_replace s [d] [e] = map (\<lambda>c. if c = d then e else c) s"
  by (induction s) auto

lemma sanitize_label_eq:
  "sanitize_label label =
     map (\<lambda>c. if c = CHR 0x0A then CHR '' '' else c) (filter (\<lambda>c. c \<noteq> CHR 0x22) label)"
  by (simp add: sanitize_label_def py_replace_delete_char py_replace_subst_char)

text \<open>
  Claim C6. The label of every edge in the diagram text is the relationship's label with
  the double quotes removed and every newline turned into a space; when that has more than
  30 characters it is cut to its first 27 characters followed by \<open>...\<close>, and otherwise it
  is rendered as it is. The rendered label has at most 30 characters and holds neither a
  double quote nor a newline.
\<close>

theorem edge_label_capped:
  "edge_label label =
     (if length (sanitize_label label) > 30 then take 27 (sanitize_label label) @ ''...''
      else sanitize_label label)
   \<and> sanitize_label label =
       map (\<lambda>c. if c = CHR 0x0A then CHR '' '' else c) (filter (\<lambda>c. c \<noteq> CHR 0x22) label)
   \<and> length (edge_label label) \<le> 30
   \<and> CHR 0x22 \<notin> set (edge_label label) \<and> CHR 0x0A \<notin> set (edge_label label)
   \<and> mermaid_edge_line \<lparr>rel_from = f, rel_to = t, rel_label = label\<rparr> =
       ''    A'' @ str_int f @ '' -- '' @ [CHR 0x22] @ edge_label label @ [CHR 0x22]
         @ '' --> A'' @ str_int t"
proof -
  let ?l = "sanitize_label label"
  have q: "CHR 0x22 \<notin> set ?l" and n: "CHR 0x0A \<notin> set ?l"
    by (auto simp: sanitize_label_eq)
  have e: "edge_label label = (if length ?l > 30 then take 27 ?l @ ''...'' else ?l)"
    by (simp add: edge_label_def max_label_len_def Let_def)
  have len: "length (edge_label label) \<le> 30"
    by (simp add: e)
  have q': "CHR 0x22 \<notin> set (edge_label label)"
    using q by (auto simp: e dest: in_set_takeD)
  have n': "CHR 0x0A \<notin> set (edge_label label)"
    using n by (auto simp: e dest: in_set_takeD)
  show ?thesis
    using e len q' n' by (simp add: sanitize_label_eq mermaid_edge_line_def)
qed

theorem edge_label_capped_witness:
  "edge_label (''reads the '' @ [CHR 0x22] @ ''settings'' @ [CHR 0x22] @ '' and''
                 @ [CHR 0x0A] @ ''forwards them on'')
     = ''reads the settings and forw...''
   \<and> edge_label (''Feeds '' @ [CHR 0x22] @ ''raw'' @ [CHR 0x22] @ '' data'') = ''Feeds raw data''"
  using edge_label_capped [of "''reads the '' @ [CHR 0x22] @ ''settings'' @ [CHR 0x22] @ '' and''
                                 @ [CHR 0x0A] @ ''forwards them on''"]
    edge_label_capped [of "''Feeds '' @ [CHR 0x22] @ ''raw'' @ [CHR 0x22] @ '' data''"]
  by (simp add: sanitize_label_def)

section \<open>Reading index entries\<close>

lemma is_digit_facts:
  "is_digit c \<Longrightarrow> \<not> isspace c \<and> \<not> int_space c \<and> c \<noteq> CHR ''+'' \<and> c \<noteq> CHR ''-'' \<and> c \<noteq> CHR ''#'' \<and> c \<noteq> CHR ''_''"
  by (auto simp: is_digit_def isspace_def int_space_def Let_def)

lemma int_body_digits:
  "list_all is_digit s \<Longrightarrow> int_body acc s = Some (foldl (\<lambda>a c. 10 * a + digit_val c) acc s)"
  by (induction s arbitrary: acc) auto

lemma int_unsigned_digits: "all_digits s \<Longrightarrow> int_unsigned s = Some (decimal s)"
  by (cases s) (auto simp: all_digits_def int_unsigned_def decimal_def int_body_digits)

lemma dropWhile_digits:
  "all_digits s \<Longrightarrow> dropWhile isspace s = s \<and> dropWhile int_space s = s"
  by (cases s) (auto simp: all_digits_def dest: is_digit_facts)

lemma all_digits_rev: "all_digits s \<Longrightarrow> all_digits (rev s)"
  by (simp add: all_digits_def list_all_iff)

lemma py_int_digits: "all_digits s \<Longrightarrow> py_int s = Some (int (decimal s))"
proof -
  assume d: "all_digits s"
  have t: "rev (dropWhile int_space (rev (dropWhile int_space s))) = s"
    using d dropWhile_digits [of s] dropWhile_digits [of "rev s"] all_digits_rev [of s] by simp
  obtain c cs where s: "s = c # cs" and c: "is_digit c"
    using d by (cases s) (auto simp: all_digits_def)
  show ?thesis
    unfolding py_int_def t Let_def
    using int_unsigned_digits [OF d] is_digit_facts [OF c] by (simp add: s)
qed

lemma py_strip_digits_ws:
  assumes "all_digits s" and "list_all isspace ws"
  shows "py_strip (s @ ws) = s"
proof -
  have a: "dropWhile isspace (s @ ws) = s @ ws"
    using assms(1) by (cases s) (auto simp: all_digits_def dest: is_digit_facts)
  have b: "dropWhile isspace (rev ws @ rev s) = dropWhile isspace (rev s)"
    using assms(2) by (intro dropWhile_append2) (simp add: list_all_iff)
  show ?thesis
    using a b dropWhile_digits [of "rev s"] all_digits_rev [OF assms(1)]
    by (simp add: py_strip_def)
qed

lemma py_split_from_hash:
  "CHR ''#'' \<notin> set a \<Longrightarrow>
   py_split_from cur (a @ CHR ''#'' # rest) ''#'' = (rev cur @ a) # py_split_from [] rest ''#''"
  by (induction a arbitrary: cur) auto

lemma py_split_from_no_hash:
  "CHR ''#'' \<notin> set a \<Longrightarrow> py_split_from cur a ''#'' = [rev cur @ a]"
  by (induction a arbitrary: cur) auto

lemma py_in_hash: "py_in ''#'' s = (CHR ''#'' \<in> set s)"
  by (induction s) auto

lemma all_digits_no_hash: "all_digits s \<Longrightarrow> list_all isspace ws \<Longrightarrow> CHR ''#'' \<notin> set (s @ ws)"
  by (auto simp: all_digits_def list_all_iff isspace_def Let_def dest: is_digit_facts)

lemma parse_index_entry_forms:
  assumes "all_digits s"
  shows "parse_index_entry (YInt i) = Some i"
    and "parse_index_entry (YStr s) = Some (int (decimal s))"
    and "parse_index_entry (YStr (s @ '' # '' @ comment)) = Some (int (decimal s))"
proof -
  show "parse_index_entry (YInt i) = Some i"
    by (simp add: parse_index_entry_def)
  have nh: "CHR ''#'' \<notin> set s"
    using all_digits_no_hash [OF assms, of "[]"] by simp
  have "py_strip s = s"
    using py_strip_digits_ws [OF assms, of "[]"] by simp
  then show "parse_index_entry (YStr s) = Some (int (decimal s))"
    using nh py_int_digits [OF assms] by (simp add: parse_index_entry_def py_in_hash)
  have sp: "list_all isspace '' ''"
    by (simp add: isspace_def)
  have nh': "CHR ''#'' \<notin> set (s @ '' '')"
    using all_digits_no_hash [OF assms sp] .
  have "py_split (s @ '' # '' @ comment) ''#'' = (s @ '' '') # py_split_from [] ('' '' @ comment) ''#''"
    using py_split_from_hash [OF nh', of "[]" "'' '' @ comment"] by (simp add: py_split_def)
  then show "parse_index_entry (YStr (s @ '' # '' @ comment)) = Some (int (decimal s))"
    using py_strip_digits_ws [OF assms sp] py_int_digits [OF assms]
    by (simp add: parse_index_entry_def py_in_hash py_index_def)
qed

lemma order_loop_Inr_iff:
  "order_loop n ord seen entries = Inr res \<longleftrightarrow>
     (\<forall>e \<in> set entries. \<exists>i. parse_index_entry e = Some i \<and> 0 \<le> i \<and> i < int n \<and> i \<notin> seen)
     \<and> distinct (map parse_index_entry entries)
     \<and> res = ord @ map (the \<circ> parse_index_entry) entries"
proof (induction entries arbitrary: ord seen)
  case Nil
  then show ?case by auto
next
  case (Cons e entries)
  show ?case
  proof (cases "parse_index_entry e")
    case None
    then show ?thesis by auto
  next
    case (Some idx)
    show ?thesis
    proof (cases "0 \<le> idx \<and> idx < int n \<and> idx \<notin> seen")
      case False
      then show ?thesis using Some by auto
    next
      case True
      have "order_loop n ord seen (e # entries) = order_loop n (ord @ [idx]) (insert idx seen) entries"
        using Some True by simp
      also have "\<dots> = Inr res \<longleftrightarrow>
          (\<forall>e \<in> set entries. \<exists>i. parse_index_entry e = Some i \<and> 0 \<le> i \<and> i < int n \<and> i \<notin> insert idx seen)
          \<and> distinct (map parse_index_entry entries)
          \<and> res = (ord @ [idx]) @ map (the \<circ> parse_index_entry) entries"
        by (rule Cons.IH)
      also have "\<dots> \<longleftrightarrow>
          (\<forall>e \<in> set (e # entries). \<exists>i. parse_index_entry e = Some i \<and> 0 \<le> i \<and> i < int n \<and> i \<notin> seen)
          \<and> distinct (map parse_index_entry (e # entries))
          \<and> res = ord @ map (the \<circ> parse_index_entry) (e # entries)"
      proof -
        have key: "(\<forall>e \<in> set entries. \<exists>i. parse_index_entry e = Some i \<and> 0 \<le> i \<and> i < int n \<and> i \<notin> insert idx seen)
          \<longleftrightarrow> (\<forall>e \<in> set entries. \<exists>i. parse_index_entry e = Some i \<and> 0 \<le> i \<and> i < int n \<and> i \<notin> seen)
               \<and> Some idx \<notin> parse_index_entry ` set entries"
          by (rule iffI) (force, fastforce simp: image_iff)
        show ?thesis
          unfolding key using Some True by auto
      qed
      finally show ?thesis .
    qed
  qed
qed

section \<open>Evaluating the examples\<close>

lemmas ex_defs = nl_def dq_def order_yaml_def order_response_def abstractions_yaml_def
  abstractions_response_def relationships_yaml_def unclosed_response_def

lemma order_response_block: "strategy1_block order_response = Some order_yaml"
  by (simp add: strategy1_block_def ex_defs py_split_def py_index_def py_strip_def isspace_def)

section \<open>Ordering Stage: the accepted order is a permutation\<close>

lemma distinct_range_permutation:
  assumes "distinct (order :: int list)" and "\<forall>i \<in> set order. 0 \<le> i \<and> i < int n"
    and "length order = n"
  shows "set order = int ` {0..<n}"
proof (rule card_subset_eq)
  show "finite (int ` {0..<n})" by simp
  show "set order \<subseteq> int ` {0..<n}"
  proof
    fix i assume "i \<in> set order"
    then have "0 \<le> i \<and> i < int n" using assms(2) by blast
    then have "i = int (nat i) \<and> nat i < n" by auto
    then show "i \<in> int ` {0..<n}" by (metis atLeastLessThan_iff image_eqI zero_le)
  qed
  have "card (set order) = n"
    using assms(1,3) distinct_card by blast
  moreover have "card (int ` {0..<n}) = n"
    by (simp add: card_image)
  ultimately show "card (set order) = card (int ` {0..<n})" by simp
qed

lemma order_loop_accepts:
  assumes "order_loop n [] {} raw = Inr order"
  shows "distinct order" and "\<forall>i \<in> set order. 0 \<le> i \<and> i < int n" and "length order = length raw"
proof -
  from assms have p: "\<forall>e \<in> set raw. \<exists>i. parse_index_entry e = Some i \<and> 0 \<le> i \<and> i < int n"
    and d: "distinct (map parse_index_entry raw)"
    and o: "order = map (the \<circ> parse_index_entry) raw"
    by (auto simp: order_loop_Inr_iff)
  have q: "\<exists>i. x = Some i" if "x \<in> set (map parse_index_entry raw)" for x
  proof -
    from that obtain e where "e \<in> set raw" and "x = parse_index_entry e" by auto
    then show ?thesis using p by blast
  qed
  have "inj_on the (set (map parse_index_entry raw))"
  proof (rule inj_onI)
    fix x y
    assume "x \<in> set (map parse_index_entry raw)" "y \<in> set (map parse_index_entry raw)"
      and e: "the x = the y"
    then obtain i j where "x = Some i" "y = Some j"
      using q by blast
    then show "x = y" using e by simp
  qed
  then have "distinct (map the (map parse_index_entry raw))"
    using d distinct_map [of the "map parse_index_entry raw"] by blast
  then show "distinct order" by (metis o map_map)
  show "\<forall>i \<in> set order. 0 \<le> i \<and> i < int n"
    using p by (auto simp: o)
  show "length order = length raw" by (simp add: o)
qed

text \<open>
  Claim C1. Whatever the Ordering Stage accepts is a permutation of the indices below the
  number of abstractions: the order has that length, its set is the set of all these
  indices, and no index occurs twice. On a parsed list the stage accepts exactly when the
  list has that length, every entry resolves to an index in range and no index is
  repeated, and it returns the resolved indices; in every other case it raises. An entry
  resolves when it is an integer, a numeral in a string, or a numeral followed by
  \<open># comment\<close> in a string.
\<close>

theorem OrderChapters_exec_permutation:
  "(OrderChapters_exec safe_load response n = Inr order \<longrightarrow>
      valid_chapter_order n order \<and> distinct order)
   \<and> (parse_yaml_from_llm_response safe_load response = Inr (YList raw) \<longrightarrow>
        (OrderChapters_exec safe_load response n = Inr order \<longleftrightarrow>
           length raw = n
           \<and> (\<forall>e \<in> set raw. \<exists>i. parse_index_entry e = Some i \<and> 0 \<le> i \<and> i < int n)
           \<and> distinct (map parse_index_entry raw)
           \<and> order = map (the \<circ> parse_index_entry) raw))
   \<and> parse_index_entry (YInt i) = Some i
   \<and> (all_digits s \<longrightarrow>
        parse_index_entry (YStr s) = Some (int (decimal s))
        \<and> parse_index_entry (YStr (s @ '' # '' @ comment)) = Some (int (decimal s)))"
proof (intro conjI impI)
  assume a: "OrderChapters_exec safe_load response n = Inr order"
  then obtain raw' where l: "order_loop n [] {} raw' = Inr order" and len: "length order = n"
    by (auto simp: OrderChapters_exec_def split: sum.splits yaml.splits if_splits)
  show "valid_chapter_order n order"
    using order_loop_accepts(1,2) [OF l] len distinct_range_permutation [of order n]
    by (simp add: valid_chapter_order_def)
  show "distinct order"
    by (rule order_loop_accepts(1) [OF l])
next
  assume p: "parse_yaml_from_llm_response safe_load response = Inr (YList raw)"
  have "OrderChapters_exec safe_load response n = Inr order \<longleftrightarrow>
          order_loop n [] {} raw = Inr order \<and> length order = n"
    using p by (auto simp: OrderChapters_exec_def split: sum.splits)
  also have "\<dots> \<longleftrightarrow> length raw = n
           \<and> (\<forall>e \<in> set raw. \<exists>i. parse_index_entry e = Some i \<and> 0 \<le> i \<and> i < int n)
           \<and> distinct (map parse_index_entry raw)
           \<and> order = map (the \<circ> parse_index_entry) raw"
    by (auto simp: order_loop_Inr_iff)
  finally show "OrderChapters_exec safe_load response n = Inr order \<longleftrightarrow>
           length raw = n
           \<and> (\<forall>e \<in> set raw. \<exists>i. parse_index_entry e = Some i \<and> 0 \<le> i \<and> i < int n)
           \<and> distinct (map parse_index_entry raw)
           \<and> order = map (the \<circ> parse_index_entry) raw" .
next
  show "parse_index_entry (YInt i) = Some i"
    by (simp add: parse_index_entry_def)
next
  assume "all_digits s"
  then show "parse_index_entry (YStr s) = Some (int (decimal s))"
    by (rule parse_index_entry_forms(2))
next
  assume "all_digits s"
  then show "parse_index_entry (YStr (s @ '' # '' @ comment)) = Some (int (decimal s))"
    by (rule parse_index_entry_forms(3))
qed

lemma order_response_parsed:
  "parse_yaml_from_llm_response safe_load_table order_response =
     Inr (YList [YInt 1, YStr ''0 # Core'', YStr ''2''])"
  by (simp add: parse_yaml_from_llm_response_def order_response_block strategy2_block_def
        strategy3_block_def safe_load_table_def)

lemma entry_values:
  "parse_index_entry (YInt 1) = Some 1"
  "parse_index_entry (YStr ''0 # Core'') = Some 0"
  "parse_index_entry (YStr ''2'') = Some 2"
  by (simp_all add: parse_index_entry_def py_split_def py_index_def py_strip_def isspace_def
        py_int_def int_space_def int_unsigned_def is_digit_def digit_val_def)

theorem OrderChapters_exec_permutation_witness:
  "OrderChapters_exec safe_load_table order_response 3 = Inr [1, 0, 2]
   \<and> valid_chapter_order 3 [1, 0, 2]
   \<and> all_digits ''2'' \<and> parse_index_entry (YStr (''2'' @ '' # '' @ ''Printer'')) = Some 2"
  using OrderChapters_exec_permutation [of safe_load_table order_response 3 "[1, 0, 2]"
      "[YInt 1, YStr ''0 # Core'', YStr ''2'']" 1 "''2''" "''Printer''"]
  by (simp add: order_response_parsed entry_values all_digits_def is_digit_def decimal_def
        digit_val_def)

section \<open>Abstraction Stage: the stored file indices\<close>

lemma validate_file_indices_Inr_iff:
  "validate_file_indices N acc entries = Inr vi \<longleftrightarrow>
     (\<forall>e \<in> set entries. \<exists>i. parse_index_entry e = Some i \<and> 0 \<le> i \<and> i < int N)
     \<and> vi = acc @ map (the \<circ> parse_index_entry) entries"
proof (induction entries arbitrary: acc)
  case Nil
  then show ?case by auto
next
  case (Cons e entries)
  show ?case
  proof (cases "parse_index_entry e")
    case None
    then show ?thesis by auto
  next
    case (Some idx)
    then show ?thesis
      using Cons.IH [of "acc @ [idx]"] by (cases "0 \<le> idx \<and> idx < int N") auto
  qed
qed

lemma validate_abstraction_item_Inr:
  "validate_abstraction_item N item = Inr a \<Longrightarrow> item_accepted N item a"
  unfolding validate_abstraction_item_def item_accepted_def
  by (auto simp: validate_file_indices_Inr_iff
      split: yaml.splits option.splits sum.splits if_splits)

lemma validate_abstractions_Inr:
  "validate_abstractions N acc items = Inr res \<Longrightarrow>
     \<exists>as. res = acc @ as \<and> list_all2 (item_accepted N) items as"
proof (induction items arbitrary: acc)
  case Nil
  then show ?case by simp
next
  case (Cons item items)
  then obtain a where a: "validate_abstraction_item N item = Inr a"
    and r: "validate_abstractions N (acc @ [a]) items = Inr res"
    by (auto split: sum.splits)
  from Cons.IH [OF r] obtain as where "res = (acc @ [a]) @ as" "list_all2 (item_accepted N) items as"
    by blast
  then have "res = acc @ (a # as) \<and> list_all2 (item_accepted N) (item # items) (a # as)"
    using validate_abstraction_item_Inr [OF a] by simp
  then show ?case by blast
qed

lemma item_accepted_files:
  assumes "item_accepted N item a"
  shows "sorted (abs_files a) \<and> distinct (abs_files a)
         \<and> (\<forall>i \<in> set (abs_files a). 0 \<le> i \<and> i < int N)"
proof -
  from assms obtain entries where
    v: "\<forall>e \<in> set entries. \<exists>i. parse_index_entry e = Some i \<and> 0 \<le> i \<and> i < int N"
    and f: "abs_files a = sort (remdups (map (the \<circ> parse_index_entry) entries))"
    unfolding item_accepted_def by blast
  have "\<forall>i \<in> set (abs_files a). 0 \<le> i \<and> i < int N"
    using v by (auto simp: f)
  then show ?thesis by (simp add: f)
qed

text \<open>
  Claim C2. When the Abstraction Stage accepts, every parsed item has its abstraction:
  each index entry of the item resolved to an index below the number of files, and the
  stored files are all the resolved indices, so they are without duplicates, ascending
  and in range. One entry that does not resolve, or resolves outside the range, makes
  the whole stage raise. An entry resolves when it is an integer, a numeral in a
  string, or a numeral followed by \<open># comment\<close> in a string.
\<close>

theorem IdentifyAbstractions_exec_files:
  "(IdentifyAbstractions_exec safe_load response N = Inr abstractions \<longrightarrow>
      (\<exists>items. parse_yaml_from_llm_response safe_load response = Inr (YList items)
         \<and> list_all2 (item_accepted N) items abstractions)
      \<and> (\<forall>a \<in> set abstractions.
            sorted (abs_files a) \<and> distinct (abs_files a)
            \<and> (\<forall>i \<in> set (abs_files a). 0 \<le> i \<and> i < int N)))
   \<and> (parse_yaml_from_llm_response safe_load response = Inr (YList items)
        \<and> YMap d \<in> set items \<and> dict_get d ''file_indices'' = Some (YList entries)
        \<and> e \<in> set entries
        \<and> \<not> (\<exists>i. parse_index_entry e = Some i \<and> 0 \<le> i \<and> i < int N)
      \<longrightarrow> (\<exists>err. IdentifyAbstractions_exec safe_load response N = Inl err))
   \<and> parse_index_entry (YInt i) = Some i
   \<and> (all_digits s \<longrightarrow>
        parse_index_entry (YStr s) = Some (int (decimal s))
        \<and> parse_index_entry (YStr (s @ '' # '' @ comment)) = Some (int (decimal s)))"
proof -
  have acc: "(\<exists>items. parse_yaml_from_llm_response safe_load response = Inr (YList items)
         \<and> list_all2 (item_accepted N) items abs)"
    if "IdentifyAbstractions_exec safe_load response N = Inr abs" for abs
  proof -
    from that obtain items where
      p: "parse_yaml_from_llm_response safe_load response = Inr (YList items)"
      and v: "validate_abstractions N [] items = Inr abs"
      by (auto simp: IdentifyAbstractions_exec_def split: sum.splits yaml.splits)
    from validate_abstractions_Inr [OF v] have "list_all2 (item_accepted N) items abs"
      by simp
    with p show ?thesis by blast
  qed
  have rng: "\<forall>a \<in> set abs. sorted (abs_files a) \<and> distinct (abs_files a)
            \<and> (\<forall>i \<in> set (abs_files a). 0 \<le> i \<and> i < int N)"
    if "IdentifyAbstractions_exec safe_load response N = Inr abs" for abs
  proof
    fix a assume "a \<in> set abs"
    moreover from acc [OF that] obtain items where "list_all2 (item_accepted N) items abs"
      by blast
    ultimately obtain item where "item_accepted N item a"
      by (auto simp: in_set_conv_nth list_all2_conv_all_nth)
    then show "sorted (abs_files a) \<and> distinct (abs_files a)
            \<and> (\<forall>i \<in> set (abs_files a). 0 \<le> i \<and> i < int N)"
      by (rule item_accepted_files)
  qed
  have rej: "\<exists>err. IdentifyAbstractions_exec safe_load response N = Inl err"
    if p: "parse_yaml_from_llm_response safe_load response = Inr (YList items)"
      and m: "YMap d \<in> set items" and f: "dict_get d ''file_indices'' = Some (YList entries)"
      and e: "e \<in> set entries"
      and bad: "\<not> (\<exists>i. parse_index_entry e = Some i \<and> 0 \<le> i \<and> i < int N)"
  proof (cases "IdentifyAbstractions_exec safe_load response N")
    case (Inl err)
    then show ?thesis by blast
  next
    case (Inr abs)
    from acc [OF Inr] p have "list_all2 (item_accepted N) items abs" by simp
    with m obtain a where "item_accepted N (YMap d) a"
      by (auto simp: in_set_conv_nth list_all2_conv_all_nth)
    with f e have "\<exists>i. parse_index_entry e = Some i \<and> 0 \<le> i \<and> i < int N"
      by (auto simp: item_accepted_def)
    with bad show ?thesis by blast
  qed
  show ?thesis
  proof (intro conjI impI)
    assume a: "IdentifyAbstractions_exec safe_load response N = Inr abstractions"
    show "\<exists>items. parse_yaml_from_llm_response safe_load response = Inr (YList items)
         \<and> list_all2 (item_accepted N) items abstractions"
      by (rule acc [OF a])
    show "\<forall>a \<in> set abstractions.
            sorted (abs_files a) \<and> distinct (abs_files a)
            \<and> (\<forall>i \<in> set (abs_files a). 0 \<le> i \<and> i < int N)"
      by (rule rng [OF a])
  next
    assume "parse_yaml_from_llm_response safe_load response = Inr (YList items)
        \<and> YMap d \<in> set items \<and> dict_get d ''file_indices'' = Some (YList entries)
        \<and> e \<in> set entries
        \<and> \<not> (\<exists>i. parse_index_entry e = Some i \<and> 0 \<le> i \<and> i < int N)"
    then show "\<exists>err. IdentifyAbstractions_exec safe_load response N = Inl err"
      using rej by blast
  next
    show "parse_index_entry (YInt i) = Some i"
      by (simp add: parse_index_entry_def)
  next
    assume "all_digits s"
    then show "parse_index_entry (YStr s) = Some (int (decimal s))"
      by (rule parse_index_entry_forms(2))
  next
    assume "all_digits s"
    then show "parse_index_entry (YStr (s @ '' # '' @ comment)) = Some (int (decimal s))"
      by (rule parse_index_entry_forms(3))
  qed
qed


lemma abstractions_response_parsed:
  "parse_yaml_from_llm_response safe_load_table abstractions_response =
     Inr (YList [YMap [(YStr ''name'', YStr ''Parser''),
                       (YStr ''description'', YStr ''Reads the input.''),
                       (YStr ''file_indices'',
                          YList [YInt 2, YStr ''0 # main.py'', YStr ''2''])]])"
proof -
  have a: "strategy1_block abstractions_response = None"
    by (simp add: strategy1_block_def ex_defs)
  have b: "strategy2_block None abstractions_response = Some abstractions_yaml"
    by (simp add: strategy2_block_def ex_defs py_split_def py_index_def py_strip_def isspace_def)
  have c: "abstractions_yaml \<noteq> order_yaml"
    by (simp add: ex_defs)
  show ?thesis
    by (simp add: parse_yaml_from_llm_response_def a b c strategy3_block_def safe_load_table_def)
qed

lemma file_entry_values:
  "parse_index_entry (YInt 2) = Some 2"
  "parse_index_entry (YStr ''0 # main.py'') = Some 0"
  "parse_index_entry (YStr ''2'') = Some 2"
  "parse_index_entry (YStr ''7'') = Some 7"
  by (simp_all add: parse_index_entry_def py_split_def py_index_def py_strip_def isspace_def
        py_int_def int_space_def int_unsigned_def is_digit_def digit_val_def)

lemma abstractions_response_accepted:
  "IdentifyAbstractions_exec safe_load_table abstractions_response 3 =
     Inr [\<lparr>abs_name = ''Parser'', abs_description = ''Reads the input.'', abs_files = [0, 2]\<rparr>]"
  by (simp add: IdentifyAbstractions_exec_def abstractions_response_parsed
        validate_abstraction_item_def dict_get_def file_entry_values)

theorem IdentifyAbstractions_exec_files_witness:
  "IdentifyAbstractions_exec safe_load_table abstractions_response 3 =
     Inr [\<lparr>abs_name = ''Parser'', abs_description = ''Reads the input.'', abs_files = [0, 2]\<rparr>]
   \<and> sorted [0, 2 :: int] \<and> distinct [0, 2 :: int]
   \<and> (\<exists>err. IdentifyAbstractions_exec safe_load_table abstractions_response 2 = Inl err)
   \<and> all_digits ''7'' \<and> parse_index_entry (YStr (''7'' @ '' # '' @ ''util.py'')) = Some 7"
  using IdentifyAbstractions_exec_files [of safe_load_table abstractions_response 3
      "[\<lparr>abs_name = ''Parser'', abs_description = ''Reads the input.'', abs_files = [0, 2]\<rparr>]"
      _ _ _ _ 0 "''7''" "''util.py''"]
    IdentifyAbstractions_exec_files [of safe_load_table abstractions_response 2 _
      "[YMap [(YStr ''name'', YStr ''Parser''),
              (YStr ''description'', YStr ''Reads the input.''),
              (YStr ''file_indices'', YList [YInt 2, YStr ''0 # main.py'', YStr ''2''])]]"
      "[(YStr ''name'', YStr ''Parser''),
        (YStr ''description'', YStr ''Reads the input.''),
        (YStr ''file_indices'', YList [YInt 2, YStr ''0 # main.py'', YStr ''2''])]"
      "[YInt 2, YStr ''0 # main.py'', YStr ''2'']" "YInt 2"]
  by (simp add: abstractions_response_accepted abstractions_response_parsed dict_get_def
        file_entry_values all_digits_def is_digit_def decimal_def digit_val_def)

section \<open>Relationship Stage: what is accepted\<close>

lemma validate_relationship_Inr:
  "validate_relationship n rel = Inr r \<Longrightarrow> rel_accepted n rel r"
  unfolding validate_relationship_def rel_accepted_def
  by (auto split: yaml.splits option.splits sum.splits if_splits Option.bind_splits)

lemma validate_relationships_Inr:
  "validate_relationships n acc rels = Inr res \<Longrightarrow>
     \<exists>rs. res = acc @ rs \<and> list_all2 (rel_accepted n) rels rs"
proof (induction rels arbitrary: acc)
  case Nil
  then show ?case by simp
next
  case (Cons rel rels)
  then obtain r where a: "validate_relationship n rel = Inr r"
    and b: "validate_relationships n (acc @ [r]) rels = Inr res"
    by (auto split: sum.splits)
  from Cons.IH [OF b] obtain rs where "res = (acc @ [r]) @ rs" "list_all2 (rel_accepted n) rels rs"
    by blast
  then have "res = acc @ (r # rs) \<and> list_all2 (rel_accepted n) (rel # rels) (r # rs)"
    using validate_relationship_Inr [OF a] by simp
  then show ?case by blast
qed

lemma parse_endpoint_forms:
  assumes "all_digits s"
  shows "parse_endpoint (YStr s) = Some (int (decimal s))"
    and "parse_endpoint (YStr (s @ '' # '' @ comment)) = Some (int (decimal s))"
proof -
  have nh: "CHR ''#'' \<notin> set s"
    using all_digits_no_hash [OF assms, of "[]"] by simp
  have "py_strip s = s"
    using py_strip_digits_ws [OF assms, of "[]"] by simp
  then show "parse_endpoint (YStr s) = Some (int (decimal s))"
    using py_split_from_no_hash [OF nh, of "[]"] py_int_digits [OF assms]
    by (simp add: parse_endpoint_def py_split_def py_index_def)
  have sp: "list_all isspace '' ''"
    by (simp add: isspace_def)
  have nh': "CHR ''#'' \<notin> set (s @ '' '')"
    using all_digits_no_hash [OF assms sp] .
  have "py_split (s @ '' # '' @ comment) ''#'' = (s @ '' '') # py_split_from [] ('' '' @ comment) ''#''"
    using py_split_from_hash [OF nh', of "[]" "'' '' @ comment"] by (simp add: py_split_def)
  then show "parse_endpoint (YStr (s @ '' # '' @ comment)) = Some (int (decimal s))"
    using py_strip_digits_ws [OF assms sp] py_int_digits [OF assms]
    by (simp add: parse_endpoint_def py_index_def)
qed

text \<open>
  Claim C4, amended. When the Relationship Stage accepts, the parsed result is a mapping
  that has the keys \<open>summary\<close>, a string, and \<open>relationships\<close>, a sequence, and may
  have other keys; every entry of the sequence is a mapping that has the keys
  \<open>from_abstraction\<close>, \<open>to_abstraction\<close> and \<open>label\<close>, the label is a string, and
  both endpoints resolve to indices below the number of abstractions. So any violation
  of these makes the whole stage raise. An endpoint resolves when it is an integer, a
  numeral in a string, or a numeral followed by \<open># comment\<close> in a string.
\<close>

theorem AnalyzeRelationships_exec_validated:
  "(AnalyzeRelationships_exec safe_load response n = Inr res \<longrightarrow>
      (\<exists>d rels. parse_yaml_from_llm_response safe_load response = Inr (YMap d)
         \<and> dict_get d ''summary'' = Some (YStr (summary res))
         \<and> dict_get d ''relationships'' = Some (YList rels)
         \<and> list_all2 (rel_accepted n) rels (details res)))
   \<and> parse_endpoint (YInt i) = Some i
   \<and> (all_digits s \<longrightarrow>
        parse_endpoint (YStr s) = Some (int (decimal s))
        \<and> parse_endpoint (YStr (s @ '' # '' @ comment)) = Some (int (decimal s)))"
proof (intro conjI impI)
  assume "AnalyzeRelationships_exec safe_load response n = Inr res"
  then obtain d sm rels vr where
    p: "parse_yaml_from_llm_response safe_load response = Inr (YMap d)"
    and s: "dict_get d ''summary'' = Some (YStr sm)"
    and r: "dict_get d ''relationships'' = Some (YList rels)"
    and v: "validate_relationships n [] rels = Inr vr"
    and res: "res = \<lparr>summary = sm, details = vr\<rparr>"
    by (auto simp: AnalyzeRelationships_exec_def
        split: sum.splits yaml.splits option.splits if_splits)
  from validate_relationships_Inr [OF v] have "list_all2 (rel_accepted n) rels vr" by simp
  with p s r res
  show "\<exists>d rels. parse_yaml_from_llm_response safe_load response = Inr (YMap d)
         \<and> dict_get d ''summary'' = Some (YStr (summary res))
         \<and> dict_get d ''relationships'' = Some (YList rels)
         \<and> list_all2 (rel_accepted n) rels (details res)"
    by auto
next
  show "parse_endpoint (YInt i) = Some i"
    by (simp add: parse_endpoint_def)
next
  assume "all_digits s"
  then show "parse_endpoint (YStr s) = Some (int (decimal s))"
    by (rule parse_endpoint_forms(1))
next
  assume "all_digits s"
  then show "parse_endpoint (YStr (s @ '' # '' @ comment)) = Some (int (decimal s))"
    by (rule parse_endpoint_forms(2))
qed

lemma relationships_yaml_parsed:
  "parse_yaml_from_llm_response safe_load_table relationships_yaml =
     Inr (YMap [(YStr ''summary'', YStr ''A small parser.''),
                (YStr ''relationships'',
                   YList [YMap [(YStr ''from_abstraction'', YInt 0),
                                (YStr ''to_abstraction'', YStr ''1 # Printer''),
                                (YStr ''label'', YStr ''Feeds'')]]),
                (YStr ''notes'', YStr ''none'')])"
proof -
  have a: "strategy1_block relationships_yaml = None"
    by (simp add: strategy1_block_def ex_defs)
  have b: "strategy2_block None relationships_yaml = None"
    by (simp add: strategy2_block_def ex_defs)
  have c: "py_strip relationships_yaml = relationships_yaml"
    by (simp add: py_strip_def ex_defs isspace_def)
  have d: "relationships_yaml \<noteq> order_yaml" "relationships_yaml \<noteq> abstractions_yaml"
    by (simp_all add: ex_defs)
  show ?thesis
    by (simp add: parse_yaml_from_llm_response_def a b c d strategy3_block_def safe_load_table_def)
qed

lemma endpoint_values:
  "parse_endpoint (YInt 0) = Some 0"
  "parse_endpoint (YStr ''1 # Printer'') = Some 1"
  by (simp_all add: parse_endpoint_def py_split_def py_index_def py_strip_def isspace_def
        py_int_def int_space_def int_unsigned_def is_digit_def digit_val_def)

lemma relationships_yaml_accepted:
  "AnalyzeRelationships_exec safe_load_table relationships_yaml 2 =
     Inr \<lparr>summary = ''A small parser.'',
          details = [\<lparr>rel_from = 0, rel_to = 1, rel_label = ''Feeds''\<rparr>]\<rparr>"
  by (simp add: AnalyzeRelationships_exec_def relationships_yaml_parsed
        validate_relationship_def dict_get_def endpoint_values)

text \<open>
  The claim as stated asks for exactly the keys \<open>summary\<close> and \<open>relationships\<close>. The
  stage tests that the two keys are present, not that they are the only ones: a result
  with a third key \<open>notes\<close> is accepted.
\<close>

theorem AnalyzeRelationships_exec_extra_key:
  "AnalyzeRelationships_exec safe_load_table relationships_yaml 2 =
     Inr \<lparr>summary = ''A small parser.'',
          details = [\<lparr>rel_from = 0, rel_to = 1, rel_label = ''Feeds''\<rparr>]\<rparr>
   \<and> parse_yaml_from_llm_response safe_load_table relationships_yaml =
     Inr (YMap [(YStr ''summary'', YStr ''A small parser.''),
                (YStr ''relationships'',
                   YList [YMap [(YStr ''from_abstraction'', YInt 0),
                                (YStr ''to_abstraction'', YStr ''1 # Printer''),
                                (YStr ''label'', YStr ''Feeds'')]]),
                (YStr ''notes'', YStr ''none'')])
   \<and> dict_get [(YStr ''summary'', YStr ''A small parser.''),
                (YStr ''relationships'',
                   YList [YMap [(YStr ''from_abstraction'', YInt 0),
                                (YStr ''to_abstraction'', YStr ''1 # Printer''),
                                (YStr ''label'', YStr ''Feeds'')]]),
                (YStr ''notes'', YStr ''none'')] ''notes'' = Some (YStr ''none'')"
  by (simp add: relationships_yaml_accepted relationships_yaml_parsed dict_get_def)

theorem AnalyzeRelationships_exec_validated_witness:
  "AnalyzeRelationships_exec safe_load_table relationships_yaml 2 =
     Inr \<lparr>summary = ''A small parser.'',
          details = [\<lparr>rel_from = 0, rel_to = 1, rel_label = ''Feeds''\<rparr>]\<rparr>
   \<and> (\<exists>d rels. parse_yaml_from_llm_response safe_load_table relationships_yaml = Inr (YMap d)
         \<and> dict_get d ''summary'' = Some (YStr ''A small parser.'')
         \<and> dict_get d ''relationships'' = Some (YList rels)
         \<and> list_all2 (rel_accepted 2) rels [\<lparr>rel_from = 0, rel_to = 1, rel_label = ''Feeds''\<rparr>])
   \<and> all_digits ''1'' \<and> parse_endpoint (YStr (''1'' @ '' # '' @ ''Printer'')) = Some 1"
  using AnalyzeRelationships_exec_validated [of safe_load_table relationships_yaml 2
      "\<lparr>summary = ''A small parser.'',
        details = [\<lparr>rel_from = 0, rel_to = 1, rel_label = ''Feeds''\<rparr>]\<rparr>" 0 "''1''" "''Printer''"]
  by (simp add: relationships_yaml_accepted all_digits_def is_digit_def decimal_def digit_val_def)

section \<open>Response Extractor: one text, one parse\<close>

lemma startswith_iff: "startswith s p \<longleftrightarrow> (\<exists>b. s = p @ b)"
  by (induction s p rule: startswith.induct) auto







lemma py_split_from_decomp:
  "sep \<noteq> [] \<Longrightarrow>
   py_split_from cur s sep =
     (rev cur @ text_before sep s)
     # (if py_in sep s then py_split_from [] (text_after sep s) sep else [])"
  by (induction cur s sep rule: py_split_from.induct) auto

lemma py_split_decomp:
  "sep \<noteq> [] \<Longrightarrow>
   py_split s sep =
     text_before sep s # (if py_in sep s then py_split (text_after sep s) sep else [])"
  using py_split_from_decomp [of sep "[]" s] by (simp add: py_split_def)













section \<open>Narrative Assembly Stage: the repaired heading\<close>

lemma py_join_Cons: "py_join sep (x # xs) = x @ concat (map ((@) sep) xs)"
  by (induction xs arbitrary: x) auto

lemma py_split_from_nonempty: "py_split_from cur s sep \<noteq> []"
  by (induction cur s sep rule: py_split_from.induct) auto

lemma py_join_split_from:
  "sep \<noteq> [] \<Longrightarrow> py_join sep (py_split_from cur s sep) = rev cur @ s"
proof (induction cur s sep rule: py_split_from.induct)
  case (1 cur sep)
  then show ?case by simp
next
  case (2 cur c cs sep)
  show ?case
  proof (cases "startswith (c # cs) sep")
    case True
    let ?d = "drop (length sep) (c # cs)"
    obtain y ys where y: "py_split_from [] ?d sep = y # ys"
      using py_split_from_nonempty [of "[]" ?d sep] by (cases "py_split_from [] ?d sep") auto
    have "py_join sep (py_split_from [] ?d sep) = ?d"
      using 2(1) [OF _ 2(3)] True 2(3) by simp
    then have j: "y @ concat (map ((@) sep) ys) = ?d"
      by (simp add: y py_join_Cons)
    have e: "c # cs = sep @ ?d"
      using True by (auto simp: startswith_iff)
    have "py_join sep (py_split_from cur (c # cs) sep) = rev cur @ sep @ y @ concat (map ((@) sep) ys)"
      using True 2(3) by (simp add: y py_join_Cons)
    also have "\<dots> = rev cur @ (c # cs)"
      using j e by simp
    finally show ?thesis .
  next
    case False
    then show ?thesis using 2(2) [OF _ 2(3)] by simp
  qed
qed

lemma text_before_char_none: "c \<notin> set a \<Longrightarrow> text_before [c] a = a"
  by (induction a) auto

lemma text_before_char_first: "c \<notin> set a \<Longrightarrow> text_before [c] (a @ c # b) = a"
  by (induction a) auto

lemma concat_sep_shape:
  "concat (map ((@) [c]) xs) = [] \<or> (\<exists>b. concat (map ((@) [c]) xs) = c # b)"
  by (cases xs) auto

lemma py_strip_prefix: "\<exists>t. dropWhile isspace s = py_strip s @ t"
proof -
  let ?d = "dropWhile isspace s"
  have "rev ?d = takeWhile isspace (rev ?d) @ dropWhile isspace (rev ?d)" by simp
  then have "?d = rev (dropWhile isspace (rev ?d)) @ rev (takeWhile isspace (rev ?d))"
    by (metis rev_append rev_rev_ident)
  then show ?thesis unfolding py_strip_def by blast
qed

lemma heading_not_space: "dropWhile isspace (''# '' @ x) = ''# '' @ x"
  by (simp add: isspace_def)

text \<open>
  Claim C5, amended. A body whose trimmed text starts with \<open># \<close> and the abstraction's
  name is returned as it is. Otherwise, when the first line of the trimmed body starts
  with \<open>#\<close>, that line is replaced by the heading and the other lines are kept; and
  when it does not, the heading and an empty line are put before the body. A rewritten
  body begins with the heading, which is its first line when the name has no newline;
  every returned body begins with the heading once leading white space is skipped.
\<close>

theorem WriteChapters_exec_heading:
  "(startswith (py_strip content) (''# '' @ nm) \<longrightarrow> WriteChapters_exec nm content = content)
   \<and> (\<not> startswith (py_strip content) (''# '' @ nm)
        \<and> startswith (py_strip (text_before [CHR 0x0A] (py_strip content))) ''#'' \<longrightarrow>
        WriteChapters_exec nm content =
          ''# '' @ nm @ drop (length (text_before [CHR 0x0A] (py_strip content))) (py_strip content))
   \<and> (\<not> startswith (py_strip content) (''# '' @ nm)
        \<and> \<not> startswith (py_strip (text_before [CHR 0x0A] (py_strip content))) ''#'' \<longrightarrow>
        WriteChapters_exec nm content = ''# '' @ nm @ [CHR 0x0A, CHR 0x0A] @ content)
   \<and> (\<not> startswith (py_strip content) (''# '' @ nm) \<longrightarrow>
        startswith (WriteChapters_exec nm content) (''# '' @ nm)
        \<and> (CHR 0x0A \<notin> set nm \<longrightarrow>
             text_before [CHR 0x0A] (WriteChapters_exec nm content) = ''# '' @ nm))
   \<and> startswith (dropWhile isspace (WriteChapters_exec nm content)) (''# '' @ nm)"
proof -
  let ?s = "py_strip content"
  let ?h = "''# '' @ nm"
  let ?first = "text_before [CHR 0x0A] ?s"
  obtain others where sp: "py_split ?s [CHR 0x0A] = ?first # others"
    using py_split_decomp [of "[CHR 0x0A]" ?s] by simp
  let ?rest = "concat (map ((@) [CHR 0x0A]) others)"
  have "py_join [CHR 0x0A] (py_split ?s [CHR 0x0A]) = ?s"
    using py_join_split_from [of "[CHR 0x0A]" "[]" ?s] by (simp add: py_split_def)
  then have s: "?s = ?first @ ?rest"
    by (simp add: sp py_join_Cons)
  have rest: "?rest = drop (length ?first) ?s"
    using s by (metis append_eq_conv_conj)
  have a: "WriteChapters_exec nm content = content" if "startswith ?s ?h"
    using that by (simp add: WriteChapters_exec_def)
  have b: "WriteChapters_exec nm content = ?h @ drop (length ?first) ?s"
    if "\<not> startswith ?s ?h" "startswith (py_strip ?first) ''#''"
    using that rest by (simp add: WriteChapters_exec_def sp py_join_Cons)
  have c: "WriteChapters_exec nm content = ?h @ [CHR 0x0A, CHR 0x0A] @ content"
    if "\<not> startswith ?s ?h" "\<not> startswith (py_strip ?first) ''#''"
    using that by (simp add: WriteChapters_exec_def sp)
  have d: "\<exists>t. WriteChapters_exec nm content = ?h @ t \<and> (t = [] \<or> (\<exists>u. t = CHR 0x0A # u))"
    if n: "\<not> startswith ?s ?h"
  proof (cases "startswith (py_strip ?first) ''#''")
    case True
    have "WriteChapters_exec nm content = ?h @ ?rest"
      using b [OF n True] rest by simp
    then show ?thesis using concat_sep_shape [of "CHR 0x0A" others] by blast
  next
    case False
    have "WriteChapters_exec nm content = ?h @ (CHR 0x0A # CHR 0x0A # content)"
      using c [OF n False] by simp
    then show ?thesis by blast
  qed
  have e: "startswith (WriteChapters_exec nm content) ?h" if n: "\<not> startswith ?s ?h"
    using d [OF n] unfolding startswith_iff by blast
  have f: "text_before [CHR 0x0A] (WriteChapters_exec nm content) = ?h"
    if n: "\<not> startswith ?s ?h" and nn: "CHR 0x0A \<notin> set nm"
  proof -
    have hn: "CHR 0x0A \<notin> set ?h" using nn by simp
    from d [OF n] obtain t where t: "WriteChapters_exec nm content = ?h @ t"
      and sh: "t = [] \<or> (\<exists>u. t = CHR 0x0A # u)" by blast
    from sh show ?thesis
    proof
      assume "t = []"
      then show ?thesis using text_before_char_none [OF hn] t by simp
    next
      assume "\<exists>u. t = CHR 0x0A # u"
      then obtain u where "t = CHR 0x0A # u" by blast
      then show ?thesis using text_before_char_first [OF hn, of u] t by simp
    qed
  qed
  have g: "startswith (dropWhile isspace (WriteChapters_exec nm content)) ?h"
  proof (cases "startswith ?s ?h")
    case True
    then obtain t where "?s = ?h @ t" unfolding startswith_iff by blast
    moreover obtain t' where "dropWhile isspace content = ?s @ t'"
      using py_strip_prefix by blast
    ultimately have "dropWhile isspace content = ?h @ (t @ t')" by simp
    then have "startswith (dropWhile isspace content) ?h"
      unfolding startswith_iff by blast
    then show ?thesis using a [OF True] by simp
  next
    case False
    from e [OF False] obtain t where t: "WriteChapters_exec nm content = ''# '' @ (nm @ t)"
      unfolding startswith_iff by auto
    have "dropWhile isspace (WriteChapters_exec nm content) = ''# '' @ (nm @ t)"
      unfolding t by (rule heading_not_space)
    then show ?thesis unfolding startswith_iff by auto
  qed
  show ?thesis
  proof (intro conjI impI)
    assume "\<not> startswith ?s ?h \<and> startswith (py_strip ?first) ''#''"
    then show "WriteChapters_exec nm content = ''# '' @ nm @ drop (length ?first) ?s"
      using b by simp
  next
    assume "\<not> startswith ?s ?h \<and> \<not> startswith (py_strip ?first) ''#''"
    then show "WriteChapters_exec nm content = ''# '' @ nm @ [CHR 0x0A, CHR 0x0A] @ content"
      using c by simp
  qed (use a e f g in blast)+
qed


text \<open>
  The claim as stated has every body without a heading that names exactly the
  abstraction rewritten, and every returned body begin with the heading. The test is a
  prefix test on the trimmed body: the heading of another, longer name stays, and a
  body with the right heading behind an empty line is returned with that empty line
  first.
\<close>

theorem heading_kept_as_it_is:
  "WriteChapters_exec ''Parser'' (''# ParserCombinators'' @ nl @ ''Text'')
     = ''# ParserCombinators'' @ nl @ ''Text''
   \<and> text_before nl (WriteChapters_exec ''Parser'' (''# ParserCombinators'' @ nl @ ''Text''))
     = ''# ParserCombinators''
   \<and> WriteChapters_exec ''Parser'' (nl @ ''# Parser'' @ nl @ ''Text'')
     = nl @ ''# Parser'' @ nl @ ''Text''
   \<and> \<not> startswith (WriteChapters_exec ''Parser'' (nl @ ''# Parser'' @ nl @ ''Text'')) ''# Parser''"
  by (simp add: WriteChapters_exec_def nl_def py_strip_def isspace_def)

theorem WriteChapters_exec_heading_witness:
  "WriteChapters_exec ''Parser'' ''Text only'' = ''# Parser'' @ nl @ nl @ ''Text only''
   \<and> WriteChapters_exec ''Parser'' (''# Intro'' @ nl @ ''Text'') = ''# Parser'' @ nl @ ''Text''
   \<and> WriteChapters_exec ''Parser'' (''# Parser'' @ nl @ ''Text'') = ''# Parser'' @ nl @ ''Text''
   \<and> text_before nl (WriteChapters_exec ''Parser'' (''# Intro'' @ nl @ ''Text'')) = ''# Parser''"
  using WriteChapters_exec_heading [of "''Text only''" "''Parser''"]
    WriteChapters_exec_heading [of "''# Intro'' @ nl @ ''Text''" "''Parser''"]
    WriteChapters_exec_heading [of "''# Parser'' @ nl @ ''Text''" "''Parser''"]
  by (simp add: nl_def py_strip_def isspace_def)

section \<open>Combination Stage: the navigation list\<close>

lemma chapter_loop_all_valid:
  assumes "\<forall>p \<in> set items. 0 \<le> snd p \<and> snd p < int (length abstractions)
             \<and> fst p < length chapters_content"
  shows "fst (chapter_loop abstractions chapters_content (links, files) items) =
           links @ map (\<lambda>p.
             \<lparr>link_number = fst p + 1,
              link_title = abs_name (abstractions ! nat (snd p)),
              link_filename = chapter_filename (fst p) (abs_name (abstractions ! nat (snd p))),
              link_description = abs_description (abstractions ! nat (snd p))\<rparr>) items"
  using assms
proof (induction items arbitrary: links files)
  case Nil
  then show ?case by simp
next
  case (Cons p items)
  obtain i idx where p: "p = (i, idx)" by (cases p)
  have v: "0 \<le> idx \<and> idx < int (length abstractions) \<and> i < length chapters_content"
    using Cons.prems p by simp
  have r: "\<forall>p \<in> set items. 0 \<le> snd p \<and> snd p < int (length abstractions)
             \<and> fst p < length chapters_content"
    using Cons.prems by simp
  show ?case
    using v Cons.IH [OF r] by (simp add: p Let_def)
qed

lemma valid_order_in_range:
  "valid_chapter_order n order \<Longrightarrow> \<forall>idx \<in> set order. 0 \<le> idx \<and> idx < int n"
  by (auto simp: valid_chapter_order_def)

lemma WriteChapters_items_length:
  assumes "\<forall>idx \<in> set order. 0 \<le> idx \<and> idx < int (length abstractions)"
  shows "length (WriteChapters_items abstractions order) = length order"
proof -
  have "\<forall>p \<in> set (enumerate 0 order). snd p \<in> set order"
    by (auto simp: enumerate_eq_zip dest: set_zip_rightD)
  then have "filter (\<lambda>(i, abstraction_index).
               0 \<le> abstraction_index \<and> abstraction_index < int (length abstractions))
       (enumerate 0 order) = enumerate 0 order"
    using assms by (intro filter_True) (auto simp: case_prod_unfold)
  then show ?thesis by (simp add: WriteChapters_items_def)
qed

lemma digit_char_zero: "digit_char 0 = CHR ''0''"
  unfolding digit_char_def by code_simp

lemma fmt_02d_two_digits:
  "n < 100 \<Longrightarrow> fmt_02d n = [digit_char (n div 10), digit_char (n mod 10)]"
proof -
  assume n: "n < 100"
  show ?thesis
  proof (cases "n < 10")
    case True
    then show ?thesis
      by (simp add: fmt_02d_def str_nat.simps [of n] digit_char_zero)
  next
    case False
    then have "n div 10 < 10" using n by simp
    then show ?thesis
      using False by (simp add: fmt_02d_def str_nat.simps [of n] str_nat.simps [of "n div 10"])
  qed
qed

lemma navigation_entries_valid:
  assumes "valid_chapter_order (length abstractions) chapter_order"
    and "length chapters_content = length (WriteChapters_items abstractions chapter_order)"
  shows "length (fst (CombineTutorial_chapter_links abstractions chapter_order chapters_content))
           = length chapter_order + 1
    \<and> (\<forall>i < length chapter_order.
          fst (CombineTutorial_chapter_links abstractions chapter_order chapters_content) ! i =
            \<lparr>link_number = i + 1,
             link_title = abs_name (abstractions ! nat (chapter_order ! i)),
             link_filename =
               fmt_02d (i + 1) @ ''_''
                 @ map lower_char (map (\<lambda>c. if isalnum c then c else CHR ''_'')
                     (abs_name (abstractions ! nat (chapter_order ! i))))
                 @ ''.md'',
             link_description = abs_description (abstractions ! nat (chapter_order ! i))\<rparr>
          \<and> (i + 1 < 100 \<longrightarrow>
                fmt_02d (i + 1) = [digit_char ((i + 1) div 10), digit_char ((i + 1) mod 10)]))
    \<and> fst (CombineTutorial_chapter_links abstractions chapter_order chapters_content)
          ! length chapter_order =
        \<lparr>link_number = length chapter_order + 1,
         link_title = ''Beginner-Friendly Overview'',
         link_filename = ''beginner_friendly_episode.md'',
         link_description =
           ''A high-level, simplified overview of the project for non-technical readers.''\<rparr>"
proof -
  let ?items = "enumerate 0 chapter_order"
  let ?mk = "\<lambda>p. \<lparr>link_number = fst p + 1,
              link_title = abs_name (abstractions ! nat (snd p)),
              link_filename = chapter_filename (fst p) (abs_name (abstractions ! nat (snd p))),
              link_description = abs_description (abstractions ! nat (snd p))\<rparr>"
  have rng: "\<forall>idx \<in> set chapter_order. 0 \<le> idx \<and> idx < int (length abstractions)"
    using assms(1) by (rule valid_order_in_range)
  have len: "length chapters_content = length chapter_order"
    using assms(2) WriteChapters_items_length [OF rng] by simp
  have "\<forall>p \<in> set ?items. 0 \<le> snd p \<and> snd p < int (length abstractions)
             \<and> fst p < length chapters_content"
  proof
    fix p assume "p \<in> set ?items"
    then obtain i where "i < length chapter_order" "p = (i, chapter_order ! i)"
      by (auto simp: in_set_conv_nth nth_enumerate_eq)
    then show "0 \<le> snd p \<and> snd p < int (length abstractions) \<and> fst p < length chapters_content"
      using rng len by simp
  qed
  then have loop: "fst (chapter_loop abstractions chapters_content ([], []) ?items) = map ?mk ?items"
    using chapter_loop_all_valid [of ?items abstractions chapters_content "[]" "[]"] by simp
  have links: "fst (CombineTutorial_chapter_links abstractions chapter_order chapters_content) =
      map ?mk ?items @ [overview_link (length chapter_order + 1)]"
  proof -
    obtain ls fs where c: "chapter_loop abstractions chapters_content ([], []) ?items = (ls, fs)"
      by (cases "chapter_loop abstractions chapters_content ([], []) ?items")
    then have "ls = map ?mk ?items" using loop by simp
    then show ?thesis by (simp add: CombineTutorial_chapter_links_def c)
  qed
  have nth: "(map ?mk ?items @ [overview_link (length chapter_order + 1)]) ! i =
      \<lparr>link_number = i + 1,
       link_title = abs_name (abstractions ! nat (chapter_order ! i)),
       link_filename = chapter_filename i (abs_name (abstractions ! nat (chapter_order ! i))),
       link_description = abs_description (abstractions ! nat (chapter_order ! i))\<rparr>"
    if "i < length chapter_order" for i
    using that by (simp add: nth_append nth_enumerate_eq)
  have last: "(map ?mk ?items @ [overview_link (length chapter_order + 1)]) ! length chapter_order
      = overview_link (length chapter_order + 1)"
    by (simp add: nth_append)
  show ?thesis
    unfolding links
    using nth last fmt_02d_two_digits
    by (simp add: chapter_filename_def safe_name_def overview_link_def)
qed


text \<open>
  Claim C8, amended. In a run of the Combination Stage with a valid chapter order of
  length K, where the chapters are the documents of the Narrative Assembly Stage, one per
  prepared item: the navigation list has K + 1 entries; entry i, for i below K, has the
  number i + 1, the name and the description of the abstraction at position i of the
  order, and the file name made of the number in the format \<open>02d\<close>, an underscore, the
  name with every character that is not alphanumeric turned into an underscore and then
  put in lower case, and \<open>.md\<close>; the format writes a number below 100 with exactly two
  digits, the first a zero below 10, and a number from 10 on with all its digits; and the
  last entry is the fixed overview entry, with the number K + 1.
\<close>

theorem CombineTutorial_navigation_entries:
  assumes "valid_chapter_order (length abstractions) chapter_order"
    and "length chapters_content = length (WriteChapters_items abstractions chapter_order)"
  shows "length (fst (CombineTutorial_chapter_links abstractions chapter_order chapters_content))
           = length chapter_order + 1
    \<and> (\<forall>i < length chapter_order.
          fst (CombineTutorial_chapter_links abstractions chapter_order chapters_content) ! i =
            \<lparr>link_number = i + 1,
             link_title = abs_name (abstractions ! nat (chapter_order ! i)),
             link_filename =
               fmt_02d (i + 1) @ ''_''
                 @ map lower_char (map (\<lambda>c. if isalnum c then c else CHR ''_'')
                     (abs_name (abstractions ! nat (chapter_order ! i))))
                 @ ''.md'',
             link_description = abs_description (abstractions ! nat (chapter_order ! i))\<rparr>
          \<and> (i + 1 < 100 \<longrightarrow>
                fmt_02d (i + 1) = [digit_char ((i + 1) div 10), digit_char ((i + 1) mod 10)])
          \<and> (10 \<le> i + 1 \<longrightarrow> fmt_02d (i + 1) = str_nat (i + 1)))
    \<and> fst (CombineTutorial_chapter_links abstractions chapter_order chapters_content)
          ! length chapter_order =
        \<lparr>link_number = length chapter_order + 1,
         link_title = ''Beginner-Friendly Overview'',
         link_filename = ''beginner_friendly_episode.md'',
         link_description =
           ''A high-level, simplified overview of the project for non-technical readers.''\<rparr>"
  using navigation_entries_valid [OF assms] by (simp add: fmt_02d_def)

text \<open>
  The claim as stated has a two-digit number before every chapter's file name. With a
  hundred abstractions the order is valid, and the file of the last chapter, the
  hundredth, begins with the three digits of its number.
\<close>

theorem hundredth_chapter_filename:
  "valid_chapter_order (length hundred_abstractions) hundred_order
   \<and> length hundred_chapters = length (WriteChapters_items hundred_abstractions hundred_order)
   \<and> fst (CombineTutorial_chapter_links hundred_abstractions hundred_order hundred_chapters) ! 99 =
       \<lparr>link_number = 100, link_title = ''N'', link_filename = ''100_n.md'',
        link_description = ''One of many.''\<rparr>"
proof -
  have v: "valid_chapter_order (length hundred_abstractions) hundred_order"
    by (simp add: valid_chapter_order_def hundred_abstractions_def hundred_order_def)
  have l: "length hundred_chapters = length (WriteChapters_items hundred_abstractions hundred_order)"
    using WriteChapters_items_length [OF valid_order_in_range [OF v]]
    by (simp add: hundred_chapters_def hundred_order_def)
  have i: "(99::nat) < length hundred_order"
    by (simp add: hundred_order_def)
  have n: "hundred_abstractions ! nat (hundred_order ! 99) =
      \<lparr>abs_name = ''N'', abs_description = ''One of many.'', abs_files = []\<rparr>"
    by (simp add: hundred_abstractions_def hundred_order_def)
  have f: "fmt_02d (99 + 1) = ''100''"
    "map lower_char (map (\<lambda>c. if isalnum c then c else CHR ''_'') ''N'') = ''n''"
    by code_simp+
  note e = navigation_entries_valid [OF v l, THEN conjunct2, THEN conjunct1, rule_format, OF i,
      THEN conjunct1, unfolded n]
  show ?thesis
    using v l e f by simp
qed

lemma example_names:
  "map lower_char (map (\<lambda>c. if isalnum c then c else CHR ''_'') ''Parser'') = ''parser''"
  "map lower_char (map (\<lambda>c. if isalnum c then c else CHR ''_'') ''Core Engine'') = ''core_engine''"
  "fmt_02d (0 + 1) = ''01''"
  "fmt_02d (1 + 1) = ''02''"
  by code_simp+

lemma example_lookup:
  "abs_name (two_abstractions ! nat ([1, 0] ! 0)) = ''Parser''"
  "abs_description (two_abstractions ! nat ([1, 0] ! 0)) = ''Reads the input.''"
  "abs_name (two_abstractions ! nat ([1, 0] ! 1)) = ''Core Engine''"
  "abs_description (two_abstractions ! nat ([1, 0] ! 1)) = ''Runs the stages.''"
  by (simp_all add: two_abstractions_def)

lemma example_order: "valid_chapter_order (length two_abstractions) [1, 0]"
  by (auto simp: valid_chapter_order_def two_abstractions_def)

lemma example_items:
  "length [''# Parser'', ''# Core Engine''] = length (WriteChapters_items two_abstractions [1, 0])"
  by (simp add: WriteChapters_items_def two_abstractions_def enumerate_eq_zip)

theorem CombineTutorial_navigation_entries_witness:
  "valid_chapter_order (length two_abstractions) [1, 0]
   \<and> length (fst (CombineTutorial_chapter_links two_abstractions [1, 0]
                    [''# Parser'', ''# Core Engine''])) = 3
   \<and> fst (CombineTutorial_chapter_links two_abstractions [1, 0]
            [''# Parser'', ''# Core Engine'']) ! 0 =
        \<lparr>link_number = 1, link_title = ''Parser'', link_filename = ''01_parser.md'',
         link_description = ''Reads the input.''\<rparr>
   \<and> fst (CombineTutorial_chapter_links two_abstractions [1, 0]
            [''# Parser'', ''# Core Engine'']) ! 1 =
        \<lparr>link_number = 2, link_title = ''Core Engine'', link_filename = ''02_core_engine.md'',
         link_description = ''Runs the stages.''\<rparr>
   \<and> link_number (fst (CombineTutorial_chapter_links two_abstractions [1, 0]
            [''# Parser'', ''# Core Engine'']) ! 2) = 3"
proof -
  note t = CombineTutorial_navigation_entries [OF example_order example_items]
  have 0: "(0::nat) < length [1, 0 :: int]" and 1: "(1::nat) < length [1, 0 :: int]"
    by simp_all
  note l0 = t [THEN conjunct2, THEN conjunct1, rule_format, OF 0, THEN conjunct1,
      unfolded example_lookup example_names]
  note l1 = t [THEN conjunct2, THEN conjunct1, rule_format, OF 1, THEN conjunct1,
      unfolded example_lookup example_names]
  show ?thesis
    using example_order t [THEN conjunct1] l0 l1 t [THEN conjunct2, THEN conjunct2]
    by (simp add: numeral_2_eq_2 numeral_3_eq_3)
qed

section \<open>The oracle wrapper: failures and the cache\<close>

lemma sentinel_marked: "startswith (failure_sentinel e) ''[''"
  by (simp add: failure_sentinel_def)

lemma response_value_string:
  "response_value api = JString t \<Longrightarrow> \<not> startswith t ''['' \<Longrightarrow> api = Inr (Some t)"
  using sentinel_marked
  by (auto simp: response_value_def split: sum.splits option.splits)

lemma call_llm_no_cache:
  "call_llm api wr prompt False cf = (Inr (response_value api), FromApi, cf)"
  by (cases "response_value api") (simp_all add: call_llm_def)

lemma call_llm_miss:
  assumes "\<not> (use_cache \<and> cf \<noteq> Missing) \<or> cache_contains (json_load cf) prompt = Inr False"
    and "call_llm api wr prompt use_cache cf = (r, src, cf')"
  shows "src = FromApi
    \<and> ((r = Inr (response_value api) \<and> cf' = cf)
       \<or> (use_cache \<and> cf' = cf
           \<and> (\<exists>t e. response_value api = JString t \<and> t \<noteq> [] \<and> \<not> startswith t ''[''
                \<and> cache_setitem (if cf \<noteq> Missing then json_load cf else JObject Map.empty)
                     prompt (JString t) = Inl e
                \<and> r = Inl e))
       \<or> (use_cache
           \<and> (\<exists>t c. response_value api = JString t \<and> t \<noteq> [] \<and> \<not> startswith t ''[''
                \<and> cache_setitem (if cf \<noteq> Missing then json_load cf else JObject Map.empty)
                     prompt (JString t) = Inr c
                \<and> r = Inr (JString t) \<and> cf' = json_dump wr c cf)))"
  using assms
  by (cases "response_value api")
    (auto simp: call_llm_def Let_def split: sum.splits if_splits)

lemma call_llm_at_cache:
  assumes "use_cache" and "cf \<noteq> Missing"
    and "cache_contains (json_load cf) prompt \<noteq> Inr False"
    and "call_llm api wr prompt use_cache cf = (r, src, cf')"
  shows "src = FromCache \<and> cf' = cf
    \<and> ((\<exists>e. cache_contains (json_load cf) prompt = Inl e \<and> r = Inl e)
       \<or> (cache_contains (json_load cf) prompt = Inr True
           \<and> r = cache_getitem (json_load cf) prompt))"
  using assms
  by (cases "cache_contains (json_load cf) prompt")
    (auto simp: call_llm_def Let_def split: bool.splits)

lemma call_llm_source:
  "call_llm api wr prompt use_cache cf = (r, FromCache, cf') \<Longrightarrow> use_cache"
  by (cases use_cache) (simp_all add: call_llm_no_cache)

lemma call_llm_changes:
  assumes "call_llm api wr prompt use_cache cf = (r, src, cf')" and "cf' \<noteq> cf"
  shows "use_cache \<and> src = FromApi
    \<and> (\<exists>t. api = Inr (Some t) \<and> r = Inr (JString t) \<and> t \<noteq> [] \<and> \<not> startswith t ''['')"
proof (cases "use_cache \<and> cf \<noteq> Missing \<and> cache_contains (json_load cf) prompt \<noteq> Inr False")
  case True
  then show ?thesis using call_llm_at_cache [OF _ _ _ assms(1)] assms(2) by blast
next
  case False
  then have "\<not> (use_cache \<and> cf \<noteq> Missing) \<or> cache_contains (json_load cf) prompt = Inr False"
    by blast
  from call_llm_miss [OF this assms(1)] assms(2)
  obtain t where "use_cache" "src = FromApi" "response_value api = JString t" "t \<noteq> []"
    "\<not> startswith t ''[''" "r = Inr (JString t)"
    by auto
  then show ?thesis using response_value_string by blast
qed

lemma cache_object_ops:
  "cache_is_object cf \<Longrightarrow> \<exists>m. json_load cf = JObject m
     \<and> (cf = Holds (JObject m) \<or> ((cf = Missing \<or> cf = Unreadable) \<and> m = Map.empty))"
  by (auto simp: cache_is_object_def json_load_def split: cache_file.splits json.splits)

lemma call_llm_object:
  assumes "\<not> use_cache \<or> cache_is_object cf"
    and "call_llm api wr prompt use_cache cf = (r, src, cf')"
  shows "\<exists>v. r = Inr v
    \<and> ((src = FromApi \<and> v = response_value api)
       \<or> (src = FromCache \<and> use_cache \<and> cf' = cf
           \<and> (\<exists>m. cf = Holds (JObject m) \<and> m prompt = Some v)))"
proof (cases use_cache)
  case False
  then show ?thesis using assms(2) by (simp add: call_llm_no_cache)
next
  case True
  then have "cache_is_object cf" using assms(1) by simp
  from cache_object_ops [OF this] obtain m where j: "json_load cf = JObject m"
    and k: "cf = Holds (JObject m) \<or> ((cf = Missing \<or> cf = Unreadable) \<and> m = Map.empty)"
    by blast
  show ?thesis
  proof (cases "cf \<noteq> Missing \<and> m prompt \<noteq> None")
    case True
    then have c: "cache_contains (json_load cf) prompt \<noteq> Inr False"
      by (simp add: j cache_contains_def)
    from call_llm_at_cache [OF \<open>use_cache\<close> _ c assms(2)] True k
    show ?thesis
      by (auto simp: j cache_contains_def cache_getitem_def \<open>use_cache\<close>)
  next
    case False
    then have "\<not> (use_cache \<and> cf \<noteq> Missing) \<or> cache_contains (json_load cf) prompt = Inr False"
      by (auto simp: j cache_contains_def)
    from call_llm_miss [OF this assms(2)] k
    show ?thesis
      by (auto simp: j cache_setitem_def json_load_def split: if_splits)
  qed
qed

lemma call_llm_keeps_object:
  assumes "cache_is_object cf" and "call_llm api wr prompt use_cache cf = (r, src, cf')"
  shows "cache_is_object cf'"
proof (cases "cf' = cf")
  case True
  then show ?thesis using assms(1) by simp
next
  case False
  from cache_object_ops [OF assms(1)] obtain m where j: "json_load cf = JObject m" by blast
  have n: "\<not> (use_cache \<and> cf \<noteq> Missing \<and> cache_contains (json_load cf) prompt \<noteq> Inr False)"
    using call_llm_at_cache [OF _ _ _ assms(2)] False by blast
  then have "\<not> (use_cache \<and> cf \<noteq> Missing) \<or> cache_contains (json_load cf) prompt = Inr False"
    by blast
  from call_llm_miss [OF this assms(2)] False
  obtain c where "cf' = json_dump wr (JObject c) cf"
    by (auto simp: j cache_setitem_def split: if_splits)
  then show ?thesis
    using assms(1) by (cases wr) (simp_all add: json_dump_def cache_is_object_def)
qed

lemma call_llm_marker_free:
  assumes "marker_free cf" and "call_llm api wr prompt use_cache cf = (r, src, cf')"
  shows "marker_free cf'"
proof (cases "cf' = cf")
  case True
  then show ?thesis using assms(1) by simp
next
  case False
  have n: "\<not> (use_cache \<and> cf \<noteq> Missing \<and> cache_contains (json_load cf) prompt \<noteq> Inr False)"
    using call_llm_at_cache [OF _ _ _ assms(2)] False by blast
  then have "\<not> (use_cache \<and> cf \<noteq> Missing) \<or> cache_contains (json_load cf) prompt = Inr False"
    by blast
  from call_llm_miss [OF this assms(2)] False
  obtain t c where t: "t \<noteq> []" "\<not> startswith t ''[''"
    and s: "cache_setitem (if cf \<noteq> Missing then json_load cf else JObject Map.empty)
              prompt (JString t) = Inr c"
    and d: "cf' = json_dump wr c cf"
    by auto
  obtain m where c: "c = JObject (m(prompt \<mapsto> JString t))"
    and m: "\<forall>p u. m p = Some (JString u) \<longrightarrow> u \<noteq> [] \<and> \<not> startswith u ''[''"
    using s assms(1)
    by (auto simp: cache_setitem_def json_load_def marker_free_def
        split: if_splits json.splits cache_file.splits)
  have "marker_free (Holds c)"
    unfolding c marker_free_def using m t by (simp split: if_splits)
  then show ?thesis
    using assms(1) d by (cases wr) (simp_all add: json_dump_def marker_free_def)
qed

lemma call_llm_served:
  assumes "marker_free cf" and "call_llm api wr prompt use_cache cf = (Inr (JString t), FromCache, cf')"
  shows "t \<noteq> [] \<and> \<not> startswith t ''[''"
proof -
  have u: use_cache using assms(2) by (rule call_llm_source)
  have "\<not> (\<not> (use_cache \<and> cf \<noteq> Missing) \<or> cache_contains (json_load cf) prompt = Inr False)"
    using call_llm_miss [OF _ assms(2)] by auto
  then have m: "cf \<noteq> Missing" and c: "cache_contains (json_load cf) prompt \<noteq> Inr False"
    by auto
  from call_llm_at_cache [OF u m c assms(2)]
  have "cache_getitem (json_load cf) prompt = Inr (JString t)" by auto
  then show ?thesis
    using assms(1) m
    by (auto simp: cache_getitem_def json_load_def marker_free_def
        split: json.splits cache_file.splits option.splits)
qed

lemma call_llm_seq_invariant:
  "marker_free cf \<Longrightarrow> cache_is_object cf \<Longrightarrow>
     marker_free (snd (call_llm_seq cs cf)) \<and> cache_is_object (snd (call_llm_seq cs cf))
     \<and> (\<forall>(r, src) \<in> set (fst (call_llm_seq cs cf)).
           (\<exists>v. r = Inr v)
           \<and> (src = FromCache \<longrightarrow> (\<forall>t. r = Inr (JString t) \<longrightarrow> t \<noteq> [] \<and> \<not> startswith t ''['')))"
proof (induction cs arbitrary: cf)
  case Nil
  then show ?case by simp
next
  case (Cons c cs)
  obtain api wr prompt use_cache where c: "c = (api, wr, prompt, use_cache)"
    by (cases c) auto
  obtain r src cf' where s: "call_llm api wr prompt use_cache cf = (r, src, cf')"
    by (cases "call_llm api wr prompt use_cache cf") auto
  obtain rs cf'' where t: "call_llm_seq cs cf' = (rs, cf'')"
    by (cases "call_llm_seq cs cf'") auto
  have m: "marker_free cf'"
    using call_llm_marker_free [OF Cons.prems(1) s] .
  have o: "cache_is_object cf'"
    using call_llm_keeps_object [OF Cons.prems(2) s] .
  have v: "\<exists>v. r = Inr v"
    using call_llm_object [OF _ s] Cons.prems(2) by blast
  have h: "src = FromCache \<longrightarrow> (\<forall>t. r = Inr (JString t) \<longrightarrow> t \<noteq> [] \<and> \<not> startswith t ''['')"
    using call_llm_served [OF Cons.prems(1)] s by blast
  from Cons.IH [OF m o] have "marker_free cf''" "cache_is_object cf''"
    and "\<forall>(r, src) \<in> set rs. (\<exists>v. r = Inr v)
           \<and> (src = FromCache \<longrightarrow> (\<forall>t. r = Inr (JString t) \<longrightarrow> t \<noteq> [] \<and> \<not> startswith t ''[''))"
    by (simp_all add: t)
  then show ?case using v h by (simp add: c s t)
qed


text \<open>
  Claim C10, amended. Whenever caching is off, or the cache file is absent, unreadable or
  holds a JSON object, as every file that \<open>call_llm\<close> writes does, \<open>call_llm\<close> returns
  a value and does not raise, and the cache file stays of that kind. In particular, when
  the service call fails it returns the text \<open>[OpenAI call failed: e]\<close> (unless the
  cache already served the prompt) and leaves the cache file as it is. A call changes
  the cache file only when caching is on and the response came from the service, is not
  empty and does not start with \<open>[\<close>; the failure text starts with \<open>[\<close>, so it is
  never stored. Hence a cache of that kind without such entries, as the absent file is,
  stays so through any sequence of calls, no call of the sequence raises, and no text
  served from the cache is empty or starts with \<open>[\<close>.
\<close>

theorem call_llm_failure_marker:
  "((\<not> use_cache \<or> cache_is_object cf) \<and> call_llm api wr prompt use_cache cf = (r, src, cf') \<longrightarrow>
      (\<exists>v. r = Inr v) \<and> (cache_is_object cf \<longrightarrow> cache_is_object cf'))
   \<and> ((\<not> use_cache \<or> cache_is_object cf)
        \<and> call_llm (Inl e) wr prompt use_cache cf = (r, src, cf') \<longrightarrow>
        (src = FromApi \<and> r = Inr (JString (failure_sentinel e)) \<and> cf' = cf)
        \<or> (src = FromCache \<and> use_cache \<and> cf' = cf
            \<and> (\<exists>m v. cf = Holds (JObject m) \<and> m prompt = Some v \<and> r = Inr v)))
   \<and> startswith (failure_sentinel e) ''[''
   \<and> (call_llm api wr prompt use_cache cf = (r, src, cf') \<and> cf' \<noteq> cf \<longrightarrow>
        use_cache \<and> src = FromApi
        \<and> (\<exists>t. api = Inr (Some t) \<and> r = Inr (JString t) \<and> t \<noteq> [] \<and> \<not> startswith t ''[''))
   \<and> (marker_free cf \<and> cache_is_object cf \<longrightarrow>
        marker_free (snd (call_llm_seq cs cf)) \<and> cache_is_object (snd (call_llm_seq cs cf))
        \<and> (\<forall>(r, src) \<in> set (fst (call_llm_seq cs cf)).
              (\<exists>v. r = Inr v)
              \<and> (src = FromCache \<longrightarrow>
                   (\<forall>t. r = Inr (JString t) \<longrightarrow> t \<noteq> [] \<and> \<not> startswith t ''[''))))
   \<and> marker_free Missing \<and> cache_is_object Missing"
proof (intro conjI impI)
  assume a: "(\<not> use_cache \<or> cache_is_object cf)
      \<and> call_llm api wr prompt use_cache cf = (r, src, cf')"
  then show "\<exists>v. r = Inr v"
    using call_llm_object [of use_cache cf api wr prompt r src cf'] by blast
  assume "cache_is_object cf"
  then show "cache_is_object cf'"
    using a call_llm_keeps_object by blast
next
  assume a: "(\<not> use_cache \<or> cache_is_object cf)
      \<and> call_llm (Inl e) wr prompt use_cache cf = (r, src, cf')"
  then have c: "call_llm (Inl e) wr prompt use_cache cf = (r, src, cf')" by simp
  have same: "cf' = cf"
    using call_llm_changes [OF c] by blast
  from call_llm_object [OF _ c] a obtain v where "r = Inr v"
    and "(src = FromApi \<and> v = response_value (Inl e))
       \<or> (src = FromCache \<and> use_cache \<and> cf' = cf
           \<and> (\<exists>m. cf = Holds (JObject m) \<and> m prompt = Some v))"
    by blast
  then show "(src = FromApi \<and> r = Inr (JString (failure_sentinel e)) \<and> cf' = cf)
        \<or> (src = FromCache \<and> use_cache \<and> cf' = cf
            \<and> (\<exists>m v. cf = Holds (JObject m) \<and> m prompt = Some v \<and> r = Inr v))"
    using same by (auto simp: response_value_def)
next
  show "startswith (failure_sentinel e) ''[''" by (rule sentinel_marked)
next
  assume "call_llm api wr prompt use_cache cf = (r, src, cf') \<and> cf' \<noteq> cf"
  then have "use_cache \<and> src = FromApi
    \<and> (\<exists>t. api = Inr (Some t) \<and> r = Inr (JString t) \<and> t \<noteq> [] \<and> \<not> startswith t ''['')"
    using call_llm_changes by blast
  then show "use_cache" "src = FromApi"
    "\<exists>t. api = Inr (Some t) \<and> r = Inr (JString t) \<and> t \<noteq> [] \<and> \<not> startswith t ''[''"
    by simp_all
next
  assume "marker_free cf \<and> cache_is_object cf"
  then have m: "marker_free cf" and o: "cache_is_object cf" by simp_all
  from call_llm_seq_invariant [OF m o, of cs]
  show "marker_free (snd (call_llm_seq cs cf))" "cache_is_object (snd (call_llm_seq cs cf))"
    "\<forall>(r, src) \<in> set (fst (call_llm_seq cs cf)).
              (\<exists>v. r = Inr v)
              \<and> (src = FromCache \<longrightarrow>
                   (\<forall>t. r = Inr (JString t) \<longrightarrow> t \<noteq> [] \<and> \<not> startswith t ''[''))"
    by simp_all
next
  show "marker_free Missing" by (simp add: marker_free_def)
  show "cache_is_object Missing" by (simp add: cache_is_object_def)
qed

text \<open>
  The claim as stated has \<open>call_llm\<close> never raise. The membership test, the lookup
  and the store on the loaded cache stand outside every \<open>try\<close>: with a cache file that
  holds \<open>null\<close> the call raises before the service is asked, and with one that holds
  an array it raises when it stores a response.
\<close>

theorem call_llm_raises_on_foreign_cache:
  "call_llm (Inl ''timeout'') WriteOk ''p'' True (Holds JNull) =
     (Inl ''TypeError: argument is not iterable'', FromCache, Holds JNull)
   \<and> call_llm (Inr (Some ''answer'')) WriteOk ''p'' True (Holds (JArray [])) =
     (Inl ''TypeError: object does not support item assignment'', FromApi, Holds (JArray []))"
  by (simp add: call_llm_def json_load_def cache_contains_def cache_setitem_def
        response_value_def)

theorem call_llm_failure_marker_witness:
  "fst (call_llm_seq
          [(Inl ''timeout'', WriteOk, ''p'', True),
           (Inr (Some ''answer''), WriteOk, ''p'', True),
           (Inl ''timeout'', WriteOk, ''p'', True)] Missing) =
     [(Inr (JString ''[OpenAI call failed: timeout]''), FromApi),
      (Inr (JString ''answer''), FromApi),
      (Inr (JString ''answer''), FromCache)]
   \<and> marker_free (snd (call_llm_seq
          [(Inl ''timeout'', WriteOk, ''p'', True),
           (Inr (Some ''answer''), WriteOk, ''p'', True),
           (Inl ''timeout'', WriteOk, ''p'', True)] Missing))
   \<and> cache_is_object Missing
   \<and> call_llm (Inl ''timeout'') WriteOk ''p'' True Missing =
       (Inr (JString ''[OpenAI call failed: timeout]''), FromApi, Missing)"
  using call_llm_failure_marker [of True Missing "Inl ''timeout''" WriteOk "''p''"
      "Inr (JString ''[OpenAI call failed: timeout]'')" FromApi Missing "''timeout''"
      "[(Inl ''timeout'', WriteOk, ''p'', True),
        (Inr (Some ''answer''), WriteOk, ''p'', True),
        (Inl ''timeout'', WriteOk, ''p'', True)]"]
  by (simp add: call_llm_def failure_sentinel_def json_dump_def json_load_def
        cache_contains_def cache_getitem_def cache_setitem_def response_value_def)

section \<open>Retried stages: the cache is used once\<close>








section \<open>Combination Stage: publishing before writing\<close>








end
